theory Spec2Isabelle
  imports Main
begin

section \<open>The execution model\<close>

text \<open>
  \<^verbatim>\<open>vector.h\<close> defines \<^verbatim>\<open>RawMemory<T>\<close>, an owner of one untyped allocation, and
  \<^verbatim>\<open>Vector<T>\<close>, which keeps a prefix of that allocation constructed.  The embedding
  makes explicit what the C++ leaves to the language:

  \<^item> a slot of an allocation is either raw storage or a live object;
  \<^item> every call that may throw (\<^verbatim>\<open>operator new\<close>, a constructor, an assignment of the
    element type) asks the \<open>world\<close> whether it throws: the world carries a schedule of
    decisions, one per fallible call, so quantifying over schedules covers every
    pattern of failures ("throw on the k-th invocation");
  \<^item> the world also numbers the allocations (a fresh address each) and records a trace
    of the allocator and element-type calls, which is what a test with an instrumented
    element type observes;
  \<^item> an operation ends in \<open>Return\<close>, in \<open>Throw\<close> (an exception leaves the call; the
    state is the one the caller finds), or in \<open>Undefined\<close> (a failed \<^verbatim>\<open>assert\<close>, a read or
    destruction of raw storage, an access outside the allocation, or a library call
    whose precondition is violated).

  \<^verbatim>\<open>size_t\<close> is modelled by \<open>nat\<close>: a size or capacity counts slots of an existing
  allocation, and the doubling \<^verbatim>\<open>size_ * 2\<close> is only computed for such a size.
  The byte count \<^verbatim>\<open>n * sizeof(T)\<close> handed to \<^verbatim>\<open>operator new\<close> is not modelled: an
  allocation of \<open>n\<close> slots either provides \<open>n\<close> raw slots or throws.
\<close>

datatype 'a slot = Raw | Obj 'a

datatype ctor = ValueInit | FromArgs | Copy | Move

datatype event = Alloc | Dealloc | Ctor ctor | CopyAssign | MoveAssign | Dtor

record world =
  faults :: "bool list"
  next_addr :: nat
  trace :: "event list"

text \<open>
  What the array needs to know about the element type \<^verbatim>\<open>T\<close>: the two type traits
  \<^verbatim>\<open>UninitializedCopyOrMoveN\<close> tests, the state a move leaves its source in, and the
  value of \<^verbatim>\<open>T()\<close>.
\<close>

record 'a traits =
  nothrow_move_constructible :: bool
  copy_constructible :: bool
  moved_from :: "'a \<Rightarrow> 'a"
  value_init :: 'a

datatype ('r, 's) outcome = Return 'r 's | Throw 's | Undefined

definition throws :: "world \<Rightarrow> bool" where
  "throws w = (case faults w of [] \<Rightarrow> False | b # _ \<Rightarrow> b)"

definition advance :: "world \<Rightarrow> world" where
  "advance w = w\<lparr>faults := tl (faults w)\<rparr>"

definition emit :: "event \<Rightarrow> world \<Rightarrow> world" where
  "emit e w = w\<lparr>trace := trace w @ [e]\<rparr>"

text \<open>
  One call of the allocator or of the element type: \<open>Inl\<close> when it throws, \<open>Inr\<close> when
  it completes and is recorded.  A call that cannot throw consults no decision.
\<close>

definition attempt :: "bool \<Rightarrow> event \<Rightarrow> world \<Rightarrow> world + world" where
  "attempt fallible e w =
     (if fallible then (if throws w then Inl (advance w) else Inr (emit e (advance w)))
      else Inr (emit e w))"

definition may_throw :: "'a traits \<Rightarrow> ctor \<Rightarrow> bool" where
  "may_throw tr k = (k = Move \<longrightarrow> \<not> nothrow_move_constructible tr)"

subsection \<open>Placement construction and the library algorithms\<close>

text \<open>
  \<^verbatim>\<open>new (p) T(...)\<close> at slot \<open>i\<close>, with the constructor of kind \<open>k\<close> producing \<open>x\<close>.
\<close>

definition construct_at :: "'a traits \<Rightarrow> ctor \<Rightarrow> nat \<Rightarrow> 'a \<Rightarrow> 'a slot list \<Rightarrow> world
    \<Rightarrow> (unit, 'a slot list \<times> world) outcome" where
  "construct_at tr k i x cs w =
     (if i < length cs then
        (case attempt (may_throw tr k) (Ctor k) w of
           Inl w1 \<Rightarrow> Throw (cs, w1)
         | Inr w1 \<Rightarrow> Return () (cs[i := Obj x], w1))
      else Undefined)"

text \<open>
  The algorithms of \<^verbatim>\<open><memory>\<close> and \<^verbatim>\<open><algorithm>\<close> the header calls, as the C++
  standard specifies them.  The \<^verbatim>\<open>uninitialized_*\<close> algorithms destroy what they have
  constructed when a constructor throws, and rethrow; \<^verbatim>\<open>destroy_n\<close> runs destructors,
  which never throw.  Ranges are given by a first index and a count.
\<close>

fun destroy_n :: "nat \<Rightarrow> nat \<Rightarrow> 'a slot list \<Rightarrow> world \<Rightarrow> (unit, 'a slot list \<times> world) outcome" where
  "destroy_n first 0 cs w = Return () (cs, w)"
| "destroy_n first (Suc n) cs w =
     (if first < length cs \<and> cs ! first \<noteq> Raw
      then destroy_n (Suc first) n (cs[first := Raw]) (emit Dtor w)
      else Undefined)"

definition destroy_at :: "nat \<Rightarrow> 'a slot list \<Rightarrow> world \<Rightarrow> (unit, 'a slot list \<times> world) outcome" where
  "destroy_at i cs w = destroy_n i 1 cs w"

fun uninitialized_value_construct_n :: "'a traits \<Rightarrow> nat \<Rightarrow> nat \<Rightarrow> 'a slot list \<Rightarrow> world
    \<Rightarrow> (unit, 'a slot list \<times> world) outcome" where
  "uninitialized_value_construct_n tr first 0 cs w = Return () (cs, w)"
| "uninitialized_value_construct_n tr first (Suc n) cs w =
     (if first < length cs then
        (case attempt True (Ctor ValueInit) w of
           Inl w1 \<Rightarrow> Throw (cs, w1)
         | Inr w1 \<Rightarrow>
            (case uninitialized_value_construct_n tr (Suc first) n
                    (cs[first := Obj (value_init tr)]) w1 of
               Throw (cs', w2) \<Rightarrow> Throw (cs'[first := Raw], emit Dtor w2)
             | r \<Rightarrow> r))
      else Undefined)"

fun uninitialized_copy_n :: "'a slot list \<Rightarrow> nat \<Rightarrow> nat \<Rightarrow> 'a slot list \<Rightarrow> nat \<Rightarrow> world
    \<Rightarrow> (unit, 'a slot list \<times> world) outcome" where
  "uninitialized_copy_n src first 0 dst d_first w = Return () (dst, w)"
| "uninitialized_copy_n src first (Suc n) dst d_first w =
     (if first < length src \<and> d_first < length dst then
        (case src ! first of
           Raw \<Rightarrow> Undefined
         | Obj x \<Rightarrow>
            (case attempt True (Ctor Copy) w of
               Inl w1 \<Rightarrow> Throw (dst, w1)
             | Inr w1 \<Rightarrow>
                (case uninitialized_copy_n src (Suc first) n (dst[d_first := Obj x])
                        (Suc d_first) w1 of
                   Throw (dst', w2) \<Rightarrow> Throw (dst'[d_first := Raw], emit Dtor w2)
                 | r \<Rightarrow> r)))
      else Undefined)"

text \<open>
  A move construction leaves its source in the moved-from state.  The state of both
  buffers is returned: source first, destination second.
\<close>

fun uninitialized_move_n :: "'a traits \<Rightarrow> 'a slot list \<Rightarrow> nat \<Rightarrow> nat \<Rightarrow> 'a slot list \<Rightarrow> nat
    \<Rightarrow> world \<Rightarrow> (unit, ('a slot list \<times> 'a slot list) \<times> world) outcome" where
  "uninitialized_move_n tr src first 0 dst d_first w = Return () ((src, dst), w)"
| "uninitialized_move_n tr src first (Suc n) dst d_first w =
     (if first < length src \<and> d_first < length dst then
        (case src ! first of
           Raw \<Rightarrow> Undefined
         | Obj x \<Rightarrow>
            (case attempt (may_throw tr Move) (Ctor Move) w of
               Inl w1 \<Rightarrow> Throw ((src, dst), w1)
             | Inr w1 \<Rightarrow>
                (case uninitialized_move_n tr (src[first := Obj (moved_from tr x)]) (Suc first) n
                        (dst[d_first := Obj x]) (Suc d_first) w1 of
                   Throw ((src', dst'), w2) \<Rightarrow> Throw ((src', dst'[d_first := Raw]), emit Dtor w2)
                 | r \<Rightarrow> r)))
      else Undefined)"

text \<open>
  A move assignment \<^verbatim>\<open>cs[d] = std::move(cs[s])\<close> inside one buffer: both slots must hold
  objects.
\<close>

definition move_assign_at :: "'a traits \<Rightarrow> nat \<Rightarrow> nat \<Rightarrow> 'a slot list \<Rightarrow> world
    \<Rightarrow> (unit, 'a slot list \<times> world) outcome" where
  "move_assign_at tr s d cs w =
     (if s < length cs \<and> d < length cs then
        (case (cs ! s, cs ! d) of
           (Obj x, Obj y) \<Rightarrow>
             (case attempt True MoveAssign w of
                Inl w1 \<Rightarrow> Throw (cs, w1)
              | Inr w1 \<Rightarrow> Return () ((cs[s := Obj (moved_from tr x)])[d := Obj x], w1))
         | _ \<Rightarrow> Undefined)
      else Undefined)"

fun move_forward :: "'a traits \<Rightarrow> nat \<Rightarrow> nat \<Rightarrow> nat \<Rightarrow> 'a slot list \<Rightarrow> world
    \<Rightarrow> (unit, 'a slot list \<times> world) outcome" where
  "move_forward tr first 0 d_first cs w = Return () (cs, w)"
| "move_forward tr first (Suc n) d_first cs w =
     (case move_assign_at tr first d_first cs w of
        Return _ (cs1, w1) \<Rightarrow> move_forward tr (Suc first) n (Suc d_first) cs1 w1
      | Throw s \<Rightarrow> Throw s
      | Undefined \<Rightarrow> Undefined)"

fun move_backward_from :: "'a traits \<Rightarrow> nat \<Rightarrow> nat \<Rightarrow> nat \<Rightarrow> 'a slot list \<Rightarrow> world
    \<Rightarrow> (unit, 'a slot list \<times> world) outcome" where
  "move_backward_from tr lst 0 d_last cs w = Return () (cs, w)"
| "move_backward_from tr lst (Suc n) d_last cs w =
     (if 0 < lst \<and> 0 < d_last then
        (case move_assign_at tr (lst - 1) (d_last - 1) cs w of
           Return _ (cs1, w1) \<Rightarrow> move_backward_from tr (lst - 1) n (d_last - 1) cs1 w1
         | Throw s \<Rightarrow> Throw s
         | Undefined \<Rightarrow> Undefined)
      else Undefined)"

text \<open>
  \<^verbatim>\<open>std::move(first, last, d_first)\<close> and \<^verbatim>\<open>std::move_backward(first, last, d_last)\<close>
  require \<open>[first, last)\<close> to be a valid range: \<open>last\<close> reachable from \<open>first\<close>.  The
  standard leaves a call on an invalid range undefined.
\<close>

definition std_move :: "'a traits \<Rightarrow> nat \<Rightarrow> nat \<Rightarrow> nat \<Rightarrow> 'a slot list \<Rightarrow> world
    \<Rightarrow> (unit, 'a slot list \<times> world) outcome" where
  "std_move tr first lst d_first cs w =
     (if first \<le> lst then move_forward tr first (lst - first) d_first cs w else Undefined)"

definition std_move_backward :: "'a traits \<Rightarrow> nat \<Rightarrow> nat \<Rightarrow> nat \<Rightarrow> 'a slot list \<Rightarrow> world
    \<Rightarrow> (unit, 'a slot list \<times> world) outcome" where
  "std_move_backward tr first lst d_last cs w =
     (if first \<le> lst then move_backward_from tr lst (lst - first) d_last cs w else Undefined)"

section \<open>RawMemory\<close>

text \<open>
  The members \<^verbatim>\<open>buffer_\<close> and \<^verbatim>\<open>capacity_\<close> are written \<open>buffer_m\<close> and \<open>capacity_m\<close>:
  \<open>buffer_m\<close> is the address of the allocation (0 is \<^verbatim>\<open>nullptr\<close>), \<open>capacity_m\<close> the field of
  the class; \<open>cells\<close> is the storage \<open>buffer_m\<close> points to.  Copying is deleted in the
  source, so an allocation has one owner and its storage can travel with the handle.
  The debug assertions of \<^verbatim>\<open>operator+\<close> and \<^verbatim>\<open>operator[]\<close> (offset within capacity) are
  covered by the bounds check every slot access of the model makes.
\<close>

record 'a RawMemory =
  buffer_m :: nat
  capacity_m :: nat
  cells :: "'a slot list"

definition Allocate :: "nat \<Rightarrow> world \<Rightarrow> (nat \<times> 'a slot list, world) outcome" where
  "Allocate n w =
     (if n \<noteq> 0 then
        (case attempt True Alloc w of
           Inl w1 \<Rightarrow> Throw w1
         | Inr w1 \<Rightarrow> Return (Suc (next_addr w1), replicate n Raw)
                      (w1\<lparr>next_addr := Suc (next_addr w1)\<rparr>))
      else Return (0, []) w)"

definition Deallocate :: "nat \<Rightarrow> world \<Rightarrow> world" where
  "Deallocate buf w = (if buf = 0 then w else emit Dealloc w)"

definition RawMemory_default :: "'a RawMemory" where
  "RawMemory_default = \<lparr>buffer_m = 0, capacity_m = 0, cells = []\<rparr>"

definition RawMemory_new :: "nat \<Rightarrow> world \<Rightarrow> ('a RawMemory, world) outcome" where
  "RawMemory_new capacity w =
     (case Allocate capacity w of
        Return (a, cs) w1 \<Rightarrow> Return \<lparr>buffer_m = a, capacity_m = capacity, cells = cs\<rparr> w1
      | Throw w1 \<Rightarrow> Throw w1
      | Undefined \<Rightarrow> Undefined)"

definition RawMemory_destroy :: "'a RawMemory \<Rightarrow> world \<Rightarrow> world" where
  "RawMemory_destroy m w = Deallocate (buffer_m m) w"

definition RawMemory_Swap :: "'a RawMemory \<times> 'a RawMemory \<Rightarrow> 'a RawMemory \<times> 'a RawMemory" where
  "RawMemory_Swap p = (snd p, fst p)"

definition Capacity_raw :: "'a RawMemory \<Rightarrow> nat" where
  "Capacity_raw m = capacity_m m"


section \<open>Vector\<close>

text \<open>
  The members \<^verbatim>\<open>data_\<close> and \<^verbatim>\<open>size_\<close> are written \<open>data_m\<close> and \<open>size_m\<close>.  An iterator
  (\<^verbatim>\<open>T*\<close>) is an address of an allocation with an offset into it; an iterator argument
  is given as its offset from \<^verbatim>\<open>begin()\<close>.
\<close>

record 'a Vector =
  data_m :: "'a RawMemory"
  size_m :: nat

type_synonym iterator = "nat \<times> nat"

definition set_cells :: "'a Vector \<Rightarrow> 'a slot list \<Rightarrow> 'a Vector" where
  "set_cells v cs = v\<lparr>data_m := (data_m v)\<lparr>cells := cs\<rparr>\<rparr>"

definition begin_it :: "'a Vector \<Rightarrow> iterator" where
  "begin_it v = (buffer_m (data_m v), 0)"

definition end_it :: "'a Vector \<Rightarrow> iterator" where
  "end_it v = (buffer_m (data_m v), size_m v)"

definition Vector_default :: "'a Vector" where
  "Vector_default = \<lparr>data_m = RawMemory_default, size_m = 0\<rparr>"


definition Vector_copy :: "'a Vector \<Rightarrow> world \<Rightarrow> ('a Vector, world) outcome" where
  "Vector_copy other w =
     (case RawMemory_new (size_m other) w of
        Return d w1 \<Rightarrow>
          (case uninitialized_copy_n (cells (data_m other)) 0 (size_m other) (cells d) 0 w1 of
             Return _ (cs, w2) \<Rightarrow> Return \<lparr>data_m = d\<lparr>cells := cs\<rparr>, size_m = size_m other\<rparr> w2
           | Throw (cs, w2) \<Rightarrow> Throw (RawMemory_destroy (d\<lparr>cells := cs\<rparr>) w2)
           | Undefined \<Rightarrow> Undefined)
      | Throw w1 \<Rightarrow> Throw w1
      | Undefined \<Rightarrow> Undefined)"

text \<open>The move constructor returns the new object and what is left of the source.\<close>

definition Vector_move :: "'a Vector \<Rightarrow> 'a Vector \<times> 'a Vector" where
  "Vector_move other =
     (\<lparr>data_m = data_m other, size_m = size_m other\<rparr>,
      \<lparr>data_m = RawMemory_default, size_m = 0\<rparr>)"

definition Vector_destroy :: "'a Vector \<Rightarrow> world \<Rightarrow> (unit, world) outcome" where
  "Vector_destroy v w =
     (case destroy_n 0 (size_m v) (cells (data_m v)) w of
        Return _ (cs, w1) \<Rightarrow> Return () (RawMemory_destroy (data_m v) w1)
      | Throw (cs, w1) \<Rightarrow> Throw w1
      | Undefined \<Rightarrow> Undefined)"

definition Size :: "'a Vector \<Rightarrow> nat" where
  "Size v = size_m v"

definition Capacity :: "'a Vector \<Rightarrow> nat" where
  "Capacity v = Capacity_raw (data_m v)"

text \<open>\<^verbatim>\<open>operator[]\<close>: the assertion \<^verbatim>\<open>index < size_\<close>, then the element.\<close>

definition at_index :: "'a Vector \<Rightarrow> nat \<Rightarrow> 'a option" where
  "at_index v index =
     (if index < size_m v \<and> index < length (cells (data_m v)) then
        (case cells (data_m v) ! index of Obj x \<Rightarrow> Some x | Raw \<Rightarrow> None)
      else None)"

definition Swap :: "'a Vector \<times> 'a Vector \<Rightarrow> 'a Vector \<times> 'a Vector" where
  "Swap p =
     (let (d1, d2) = RawMemory_Swap (data_m (fst p), data_m (snd p)) in
      (\<lparr>data_m = d1, size_m = size_m (snd p)\<rparr>, \<lparr>data_m = d2, size_m = size_m (fst p)\<rparr>))"

subsection \<open>Growth\<close>

definition UninitializedCopyOrMoveN :: "'a traits \<Rightarrow> 'a slot list \<Rightarrow> nat \<Rightarrow> nat \<Rightarrow> 'a slot list
    \<Rightarrow> nat \<Rightarrow> world \<Rightarrow> (unit, ('a slot list \<times> 'a slot list) \<times> world) outcome" where
  "UninitializedCopyOrMoveN tr src first n dst d_first w =
     (if nothrow_move_constructible tr \<or> \<not> copy_constructible tr then
        uninitialized_move_n tr src first n dst d_first w
      else
        (case uninitialized_copy_n src first n dst d_first w of
           Return _ (dst', w1) \<Rightarrow> Return () ((src, dst'), w1)
         | Throw (dst', w1) \<Rightarrow> Throw ((src, dst'), w1)
         | Undefined \<Rightarrow> Undefined))"

text \<open>
  \<^verbatim>\<open>MakeNewData\<close> works on the array and on the caller's local \<^verbatim>\<open>new_data\<close>; both are
  returned.  After the swap \<^verbatim>\<open>new_data\<close> holds the old allocation, which the caller
  releases when the local goes out of scope.
\<close>

definition MakeNewData :: "'a traits \<Rightarrow> 'a RawMemory \<Rightarrow> 'a Vector \<Rightarrow> world
    \<Rightarrow> (unit, ('a Vector \<times> 'a RawMemory) \<times> world) outcome" where
  "MakeNewData tr new_data v w =
     (case UninitializedCopyOrMoveN tr (cells (data_m v)) 0 (size_m v) (cells new_data) 0 w of
        Return _ ((src, dst), w1) \<Rightarrow>
          (case destroy_n 0 (size_m v) src w1 of
             Return _ (src', w2) \<Rightarrow>
               (let (d, nd) = RawMemory_Swap ((data_m v)\<lparr>cells := src'\<rparr>, new_data\<lparr>cells := dst\<rparr>)
                in Return () ((v\<lparr>data_m := d\<rparr>, nd), w2))
           | Throw (src', w2) \<Rightarrow> Throw ((set_cells v src', new_data\<lparr>cells := dst\<rparr>), w2)
           | Undefined \<Rightarrow> Undefined)
      | Throw ((src, dst), w1) \<Rightarrow> Throw ((set_cells v src, new_data\<lparr>cells := dst\<rparr>), w1)
      | Undefined \<Rightarrow> Undefined)"

definition MakeNewDataSafe :: "'a traits \<Rightarrow> 'a RawMemory \<Rightarrow> nat \<Rightarrow> 'a Vector \<Rightarrow> world
    \<Rightarrow> (unit, ('a Vector \<times> 'a RawMemory) \<times> world) outcome" where
  "MakeNewDataSafe tr new_data possible_leak_pos v w =
     (case MakeNewData tr new_data v w of
        Throw ((v', nd), w1) \<Rightarrow>
          (case destroy_at possible_leak_pos (cells nd) w1 of
             Return _ (cs, w2) \<Rightarrow> Throw ((v', nd\<lparr>cells := cs\<rparr>), w2)
           | Throw (cs, w2) \<Rightarrow> Throw ((v', nd\<lparr>cells := cs\<rparr>), w2)
           | Undefined \<Rightarrow> Undefined)
      | r \<Rightarrow> r)"

definition Reserve :: "'a traits \<Rightarrow> nat \<Rightarrow> 'a Vector \<Rightarrow> world
    \<Rightarrow> (unit, 'a Vector \<times> world) outcome" where
  "Reserve tr new_capacity v w =
     (if new_capacity \<le> Capacity_raw (data_m v) then Return () (v, w)
      else
        (case RawMemory_new new_capacity w of
           Return new_data w1 \<Rightarrow>
             (case MakeNewData tr new_data v w1 of
                Return _ ((v', nd), w2) \<Rightarrow> Return () (v', RawMemory_destroy nd w2)
              | Throw ((v', nd), w2) \<Rightarrow> Throw (v', RawMemory_destroy nd w2)
              | Undefined \<Rightarrow> Undefined)
         | Throw w1 \<Rightarrow> Throw (v, w1)
         | Undefined \<Rightarrow> Undefined))"

definition Resize :: "'a traits \<Rightarrow> nat \<Rightarrow> 'a Vector \<Rightarrow> world
    \<Rightarrow> (unit, 'a Vector \<times> world) outcome" where
  "Resize tr new_size v w =
     (if new_size < size_m v then
        (case destroy_n new_size (size_m v - new_size) (cells (data_m v)) w of
           Return _ (cs, w1) \<Rightarrow> Return () ((set_cells v cs)\<lparr>size_m := new_size\<rparr>, w1)
         | Throw (cs, w1) \<Rightarrow> Throw (set_cells v cs, w1)
         | Undefined \<Rightarrow> Undefined)
      else if new_size > size_m v then
        (case Reserve tr new_size v w of
           Return _ (v1, w1) \<Rightarrow>
             (case uninitialized_value_construct_n tr (size_m v1) (new_size - size_m v1)
                     (cells (data_m v1)) w1 of
                Return _ (cs, w2) \<Rightarrow> Return () ((set_cells v1 cs)\<lparr>size_m := new_size\<rparr>, w2)
              | Throw (cs, w2) \<Rightarrow> Throw (set_cells v1 cs, w2)
              | Undefined \<Rightarrow> Undefined)
         | Throw s \<Rightarrow> Throw s
         | Undefined \<Rightarrow> Undefined)
      else Return () (v\<lparr>size_m := new_size\<rparr>, w))"


subsection \<open>Append\<close>

text \<open>
  \<^verbatim>\<open>PushBack(const T&)\<close> constructs the new element with the copy constructor,
  \<^verbatim>\<open>PushBack(T&&)\<close> with the move constructor, \<^verbatim>\<open>EmplaceBack(args...)\<close> with the
  constructor its arguments select (kind \<open>k\<close>); \<open>x\<close> is the value constructed.  The
  local \<^verbatim>\<open>new_data\<close> is released when its block is left, by return or by exception.
\<close>

definition PushBack :: "'a traits \<Rightarrow> 'a \<Rightarrow> 'a Vector \<Rightarrow> world
    \<Rightarrow> (unit, 'a Vector \<times> world) outcome" where
  "PushBack tr x v w =
     (if size_m v \<noteq> Capacity_raw (data_m v) then
        (case construct_at tr Copy (size_m v) x (cells (data_m v)) w of
           Return _ (cs, w1) \<Rightarrow> Return () ((set_cells v cs)\<lparr>size_m := size_m v + 1\<rparr>, w1)
         | Throw (cs, w1) \<Rightarrow> Throw (set_cells v cs, w1)
         | Undefined \<Rightarrow> Undefined)
      else
        (case RawMemory_new (if size_m v = 0 then 1 else size_m v * 2) w of
           Return new_data w1 \<Rightarrow>
             (case construct_at tr Copy (size_m v) x (cells new_data) w1 of
                Return _ (nc, w2) \<Rightarrow>
                  (case MakeNewDataSafe tr (new_data\<lparr>cells := nc\<rparr>) (size_m v) v w2 of
                     Return _ ((v', nd), w3) \<Rightarrow>
                       Return () (v'\<lparr>size_m := size_m v' + 1\<rparr>, RawMemory_destroy nd w3)
                   | Throw ((v', nd), w3) \<Rightarrow> Throw (v', RawMemory_destroy nd w3)
                   | Undefined \<Rightarrow> Undefined)
              | Throw (nc, w2) \<Rightarrow> Throw (v, RawMemory_destroy (new_data\<lparr>cells := nc\<rparr>) w2)
              | Undefined \<Rightarrow> Undefined)
         | Throw w1 \<Rightarrow> Throw (v, w1)
         | Undefined \<Rightarrow> Undefined))"

definition PushBack_rv :: "'a traits \<Rightarrow> 'a \<Rightarrow> 'a Vector \<Rightarrow> world
    \<Rightarrow> (unit, 'a Vector \<times> world) outcome" where
  "PushBack_rv tr x v w =
     (if size_m v \<noteq> Capacity_raw (data_m v) then
        (case construct_at tr Move (size_m v) x (cells (data_m v)) w of
           Return _ (cs, w1) \<Rightarrow> Return () ((set_cells v cs)\<lparr>size_m := size_m v + 1\<rparr>, w1)
         | Throw (cs, w1) \<Rightarrow> Throw (set_cells v cs, w1)
         | Undefined \<Rightarrow> Undefined)
      else
        (case RawMemory_new (if size_m v = 0 then 1 else size_m v * 2) w of
           Return new_data w1 \<Rightarrow>
             (case construct_at tr Move (size_m v) x (cells new_data) w1 of
                Return _ (nc, w2) \<Rightarrow>
                  (case MakeNewDataSafe tr (new_data\<lparr>cells := nc\<rparr>) (size_m v) v w2 of
                     Return _ ((v', nd), w3) \<Rightarrow>
                       Return () (v'\<lparr>size_m := size_m v' + 1\<rparr>, RawMemory_destroy nd w3)
                   | Throw ((v', nd), w3) \<Rightarrow> Throw (v', RawMemory_destroy nd w3)
                   | Undefined \<Rightarrow> Undefined)
              | Throw (nc, w2) \<Rightarrow> Throw (v, RawMemory_destroy (new_data\<lparr>cells := nc\<rparr>) w2)
              | Undefined \<Rightarrow> Undefined)
         | Throw w1 \<Rightarrow> Throw (v, w1)
         | Undefined \<Rightarrow> Undefined))"

text \<open>\<^verbatim>\<open>EmplaceBack\<close> returns \<^verbatim>\<open>data_[size_++]\<close>: the result is the index of that slot.\<close>

definition EmplaceBack :: "'a traits \<Rightarrow> ctor \<Rightarrow> 'a \<Rightarrow> 'a Vector \<Rightarrow> world
    \<Rightarrow> (nat, 'a Vector \<times> world) outcome" where
  "EmplaceBack tr k x v w =
     (if size_m v \<noteq> Capacity_raw (data_m v) then
        (case construct_at tr k (size_m v) x (cells (data_m v)) w of
           Return _ (cs, w1) \<Rightarrow> Return (size_m v) ((set_cells v cs)\<lparr>size_m := size_m v + 1\<rparr>, w1)
         | Throw (cs, w1) \<Rightarrow> Throw (set_cells v cs, w1)
         | Undefined \<Rightarrow> Undefined)
      else
        (case RawMemory_new (if size_m v = 0 then 1 else size_m v * 2) w of
           Return new_data w1 \<Rightarrow>
             (case construct_at tr k (size_m v) x (cells new_data) w1 of
                Return _ (nc, w2) \<Rightarrow>
                  (case MakeNewDataSafe tr (new_data\<lparr>cells := nc\<rparr>) (size_m v) v w2 of
                     Return _ ((v', nd), w3) \<Rightarrow>
                       Return (size_m v') (v'\<lparr>size_m := size_m v' + 1\<rparr>, RawMemory_destroy nd w3)
                   | Throw ((v', nd), w3) \<Rightarrow> Throw (v', RawMemory_destroy nd w3)
                   | Undefined \<Rightarrow> Undefined)
              | Throw (nc, w2) \<Rightarrow> Throw (v, RawMemory_destroy (new_data\<lparr>cells := nc\<rparr>) w2)
              | Undefined \<Rightarrow> Undefined)
         | Throw w1 \<Rightarrow> Throw (v, w1)
         | Undefined \<Rightarrow> Undefined))"

subsection \<open>Insertion and removal\<close>

text \<open>
  \<^verbatim>\<open>new (cs + d) T(std::move(cs[s]))\<close> inside one buffer, and an assignment
  \<^verbatim>\<open>cs[i] = x\<close> (copy or move, as \<open>e\<close> says) from a value outside the buffer.
\<close>

definition move_construct_at :: "'a traits \<Rightarrow> nat \<Rightarrow> nat \<Rightarrow> 'a slot list \<Rightarrow> world
    \<Rightarrow> (unit, 'a slot list \<times> world) outcome" where
  "move_construct_at tr s d cs w =
     (if s < length cs \<and> d < length cs then
        (case cs ! s of
           Obj x \<Rightarrow>
             (case attempt (may_throw tr Move) (Ctor Move) w of
                Inl w1 \<Rightarrow> Throw (cs, w1)
              | Inr w1 \<Rightarrow> Return () ((cs[s := Obj (moved_from tr x)])[d := Obj x], w1))
         | Raw \<Rightarrow> Undefined)
      else Undefined)"

definition assign_at :: "event \<Rightarrow> nat \<Rightarrow> 'a \<Rightarrow> 'a slot list \<Rightarrow> world
    \<Rightarrow> (unit, 'a slot list \<times> world) outcome" where
  "assign_at e i x cs w =
     (if i < length cs \<and> cs ! i \<noteq> Raw then
        (case attempt True e w of
           Inl w1 \<Rightarrow> Throw (cs, w1)
         | Inr w1 \<Rightarrow> Return () (cs[i := Obj x], w1))
      else Undefined)"

text \<open>
  \<^verbatim>\<open>Emplace(cpos, args...)\<close>: \<open>cpos\<close> is the offset \<^verbatim>\<open>cpos - cbegin()\<close>, \<open>k\<close> the kind of
  constructor the arguments select and \<open>x\<close> the value it constructs.  The local
  \<^verbatim>\<open>emplacing_element\<close> of the in-place path is destroyed when its block is left.
\<close>

definition Emplace :: "'a traits \<Rightarrow> ctor \<Rightarrow> nat \<Rightarrow> 'a \<Rightarrow> 'a Vector \<Rightarrow> world
    \<Rightarrow> (iterator, 'a Vector \<times> world) outcome" where
  "Emplace tr k cpos x v w =
     (if cpos \<le> size_m v then
        (if size_m v \<noteq> Capacity_raw (data_m v) then
           (if size_m v = 0 then
              (case construct_at tr k 0 x (cells (data_m v)) w of
                 Return _ (cs, w1) \<Rightarrow>
                   Return (buffer_m (data_m v), 0) ((set_cells v cs)\<lparr>size_m := size_m v + 1\<rparr>, w1)
               | Throw (cs, w1) \<Rightarrow> Throw (set_cells v cs, w1)
               | Undefined \<Rightarrow> Undefined)
            else
              (case attempt (may_throw tr k) (Ctor k) w of
                 Inl w1 \<Rightarrow> Throw (v, w1)
               | Inr w1 \<Rightarrow>
                  (case move_construct_at tr (size_m v - 1) (size_m v) (cells (data_m v)) w1 of
                     Return _ (cs2, w2) \<Rightarrow>
                       (case std_move_backward tr cpos (size_m v - 1) (size_m v) cs2 w2 of
                          Return _ (cs3, w3) \<Rightarrow>
                            (case assign_at MoveAssign cpos x cs3 w3 of
                               Return _ (cs4, w4) \<Rightarrow>
                                 Return (buffer_m (data_m v), cpos)
                                   ((set_cells v cs4)\<lparr>size_m := size_m v + 1\<rparr>, emit Dtor w4)
                             | Throw (cs4, w4) \<Rightarrow> Throw (set_cells v cs4, emit Dtor w4)
                             | Undefined \<Rightarrow> Undefined)
                        | Throw (cs3, w3) \<Rightarrow>
                            (case destroy_at (size_m v) cs3 w3 of
                               Return _ (cs4, w4) \<Rightarrow> Throw (set_cells v cs4, emit Dtor w4)
                             | Throw (cs4, w4) \<Rightarrow> Throw (set_cells v cs4, emit Dtor w4)
                             | Undefined \<Rightarrow> Undefined)
                        | Undefined \<Rightarrow> Undefined)
                   | Throw (cs2, w2) \<Rightarrow> Throw (set_cells v cs2, emit Dtor w2)
                   | Undefined \<Rightarrow> Undefined)))
         else
           (case RawMemory_new (if size_m v = 0 then 1 else size_m v * 2) w of
              Return new_data w1 \<Rightarrow>
                (case construct_at tr k cpos x (cells new_data) w1 of
                   Return _ (nc1, w2) \<Rightarrow>
                     (case UninitializedCopyOrMoveN tr (cells (data_m v)) 0 cpos nc1 0 w2 of
                        Return _ ((oc2, nc2), w3) \<Rightarrow>
                          (case UninitializedCopyOrMoveN tr oc2 cpos (size_m v - cpos) nc2
                                  (cpos + 1) w3 of
                             Return _ ((oc3, nc3), w4) \<Rightarrow>
                               (case destroy_n 0 (size_m v) oc3 w4 of
                                  Return _ (oc4, w5) \<Rightarrow>
                                    (let (d, nd) = RawMemory_Swap
                                           ((data_m v)\<lparr>cells := oc4\<rparr>, new_data\<lparr>cells := nc3\<rparr>)
                                     in Return (buffer_m new_data, cpos)
                                          (\<lparr>data_m = d, size_m = size_m v + 1\<rparr>,
                                           RawMemory_destroy nd w5))
                                | Throw (oc4, w5) \<Rightarrow>
                                    Throw (set_cells v oc4,
                                           RawMemory_destroy (new_data\<lparr>cells := nc3\<rparr>) w5)
                                | Undefined \<Rightarrow> Undefined)
                           | Throw ((oc3, nc3), w4) \<Rightarrow>
                               (case destroy_n 0 (cpos + 1) nc3 w4 of
                                  Return _ (nc4, w5) \<Rightarrow>
                                    Throw (set_cells v oc3,
                                           RawMemory_destroy (new_data\<lparr>cells := nc4\<rparr>) w5)
                                | Throw (nc4, w5) \<Rightarrow>
                                    Throw (set_cells v oc3,
                                           RawMemory_destroy (new_data\<lparr>cells := nc4\<rparr>) w5)
                                | Undefined \<Rightarrow> Undefined)
                           | Undefined \<Rightarrow> Undefined)
                      | Throw ((oc2, nc2), w3) \<Rightarrow>
                          (case destroy_at cpos nc2 w3 of
                             Return _ (nc3, w4) \<Rightarrow>
                               Throw (set_cells v oc2,
                                      RawMemory_destroy (new_data\<lparr>cells := nc3\<rparr>) w4)
                           | Throw (nc3, w4) \<Rightarrow>
                               Throw (set_cells v oc2,
                                      RawMemory_destroy (new_data\<lparr>cells := nc3\<rparr>) w4)
                           | Undefined \<Rightarrow> Undefined)
                      | Undefined \<Rightarrow> Undefined)
                 | Throw (nc1, w2) \<Rightarrow>
                     Throw (v, RawMemory_destroy (new_data\<lparr>cells := nc1\<rparr>) w2)
                 | Undefined \<Rightarrow> Undefined)
            | Throw w1 \<Rightarrow> Throw (v, w1)
            | Undefined \<Rightarrow> Undefined))
      else Undefined)"

definition Insert :: "'a traits \<Rightarrow> nat \<Rightarrow> 'a \<Rightarrow> 'a Vector \<Rightarrow> world
    \<Rightarrow> (iterator, 'a Vector \<times> world) outcome" where
  "Insert tr pos x v w = Emplace tr Copy pos x v w"


definition PopBack :: "'a Vector \<Rightarrow> world \<Rightarrow> (unit, 'a Vector \<times> world) outcome" where
  "PopBack v w =
     (if size_m v \<noteq> 0 then
        (case destroy_at (size_m v - 1) (cells (data_m v)) w of
           Return _ (cs, w1) \<Rightarrow> Return () ((set_cells v cs)\<lparr>size_m := size_m v - 1\<rparr>, w1)
         | Throw (cs, w1) \<Rightarrow> Throw ((set_cells v cs)\<lparr>size_m := size_m v - 1\<rparr>, w1)
         | Undefined \<Rightarrow> Undefined)
      else Return () (v, w))"

definition Erase :: "'a traits \<Rightarrow> nat \<Rightarrow> 'a Vector \<Rightarrow> world
    \<Rightarrow> (iterator, 'a Vector \<times> world) outcome" where
  "Erase tr cpos v w =
     (if cpos < size_m v then
        (case std_move tr (cpos + 1) (size_m v) cpos (cells (data_m v)) w of
           Return _ (cs1, w1) \<Rightarrow>
             (case destroy_at (size_m v - 1) cs1 w1 of
                Return _ (cs2, w2) \<Rightarrow>
                  Return (buffer_m (data_m v), cpos)
                    ((set_cells v cs2)\<lparr>size_m := size_m v - 1\<rparr>, w2)
              | Throw (cs2, w2) \<Rightarrow> Throw (set_cells v cs2, w2)
              | Undefined \<Rightarrow> Undefined)
         | Throw (cs1, w1) \<Rightarrow> Throw (set_cells v cs1, w1)
         | Undefined \<Rightarrow> Undefined)
      else Undefined)"

subsection \<open>Assignment\<close>

text \<open>
  The assignment operators compare \<^verbatim>\<open>this\<close> with \<^verbatim>\<open>&other\<close>, so they are modelled on a
  store of array objects indexed by their identity.
\<close>

type_synonym 'a store = "nat \<Rightarrow> 'a Vector"

fun copy_assign_loop :: "'a slot list \<Rightarrow> nat \<Rightarrow> nat \<Rightarrow> 'a slot list \<Rightarrow> world
    \<Rightarrow> (unit, 'a slot list \<times> world) outcome" where
  "copy_assign_loop src i 0 dst w = Return () (dst, w)"
| "copy_assign_loop src i (Suc n) dst w =
     (if i < length src then
        (case src ! i of
           Obj x \<Rightarrow>
             (case assign_at CopyAssign i x dst w of
                Return _ (dst1, w1) \<Rightarrow> copy_assign_loop src (Suc i) n dst1 w1
              | Throw s \<Rightarrow> Throw s
              | Undefined \<Rightarrow> Undefined)
         | Raw \<Rightarrow> Undefined)
      else Undefined)"

definition copy_assign :: "'a traits \<Rightarrow> nat \<Rightarrow> nat \<Rightarrow> 'a store \<Rightarrow> world
    \<Rightarrow> (unit, 'a store \<times> world) outcome" where
  "copy_assign tr this other s w =
     (if this \<noteq> other then
        (if size_m (s other) > Capacity (s this) then
           (case Vector_copy (s other) w of
              Return other_copy w1 \<Rightarrow>
                (let (t, oc) = Swap (s this, other_copy) in
                 case Vector_destroy oc w1 of
                   Return _ w2 \<Rightarrow> Return () (s(this := t), w2)
                 | Throw w2 \<Rightarrow> Throw (s(this := t), w2)
                 | Undefined \<Rightarrow> Undefined)
            | Throw w1 \<Rightarrow> Throw (s, w1)
            | Undefined \<Rightarrow> Undefined)
         else
           (let min_size = min (size_m (s this)) (size_m (s other)) in
            case copy_assign_loop (cells (data_m (s other))) 0 min_size
                   (cells (data_m (s this))) w of
              Return _ (cs1, w1) \<Rightarrow>
                (case (if size_m (s this) \<ge> size_m (s other)
                       then destroy_n (size_m (s other)) (size_m (s this) - size_m (s other)) cs1 w1
                       else uninitialized_copy_n (cells (data_m (s other))) (size_m (s this))
                              (size_m (s other) - size_m (s this)) cs1 (size_m (s this)) w1) of
                   Return _ (cs2, w2) \<Rightarrow>
                     Return () (s(this := (set_cells (s this) cs2)\<lparr>size_m := size_m (s other)\<rparr>), w2)
                 | Throw (cs2, w2) \<Rightarrow> Throw (s(this := set_cells (s this) cs2), w2)
                 | Undefined \<Rightarrow> Undefined)
            | Throw (cs1, w1) \<Rightarrow> Throw (s(this := set_cells (s this) cs1), w1)
            | Undefined \<Rightarrow> Undefined))
      else Return () (s, w))"

definition move_assign :: "nat \<Rightarrow> nat \<Rightarrow> 'a store \<Rightarrow> 'a store" where
  "move_assign this other s =
     (if this \<noteq> other then
        (let (t, ot) = Swap (s this, s other) in s(this := t, other := ot))
      else s)"

section \<open>Observations\<close>

text \<open>
  The structural invariant of the data model: the size is within the capacity, the
  allocation has \<open>capacity_m\<close> slots, the slots below \<open>size_m\<close> hold objects and the
  slots from \<open>size_m\<close> on are raw.
\<close>

definition invariant :: "'a Vector \<Rightarrow> bool" where
  "invariant v \<longleftrightarrow>
     size_m v \<le> capacity_m (data_m v) \<and>
     length (cells (data_m v)) = capacity_m (data_m v) \<and>
     list_all (\<lambda>c. c \<noteq> Raw) (take (size_m v) (cells (data_m v))) \<and>
     list_all (\<lambda>c. c = Raw) (drop (size_m v) (cells (data_m v)))"

fun objs :: "'a slot list \<Rightarrow> 'a list" where
  "objs [] = []"
| "objs (Raw # cs) = objs cs"
| "objs (Obj x # cs) = x # objs cs"

definition elems :: "'a Vector \<Rightarrow> 'a list" where
  "elems v = objs (take (size_m v) (cells (data_m v)))"

definition after_move :: "'a traits \<Rightarrow> 'a slot \<Rightarrow> 'a slot" where
  "after_move tr c = (case c of Obj x \<Rightarrow> Obj (moved_from tr x) | Raw \<Rightarrow> Raw)"

definition calls :: "event \<Rightarrow> world \<Rightarrow> nat" where
  "calls e w = count_list (trace w) e"

text \<open>
  Objects of the element type and blocks of the allocator that are alive: constructed
  or allocated, and not yet destroyed or released.
\<close>

fun is_ctor :: "event \<Rightarrow> bool" where
  "is_ctor (Ctor k) = True"
| "is_ctor e = False"

definition live_objects :: "world \<Rightarrow> int" where
  "live_objects w = int (length (filter is_ctor (trace w))) - int (calls Dtor w)"

definition live_blocks :: "world \<Rightarrow> int" where
  "live_blocks w = int (calls Alloc w) - int (calls Dealloc w)"


subsection \<open>Sequences of appends\<close>

datatype 'a append = PushBackCopy 'a | PushBackMove 'a | EmplaceBackArgs ctor 'a

fun appended :: "'a append \<Rightarrow> 'a" where
  "appended (PushBackCopy x) = x"
| "appended (PushBackMove x) = x"
| "appended (EmplaceBackArgs k x) = x"

fun ctor_of :: "'a append \<Rightarrow> ctor" where
  "ctor_of (PushBackCopy x) = Copy"
| "ctor_of (PushBackMove x) = Move"
| "ctor_of (EmplaceBackArgs k x) = k"

definition forget :: "('r, 's) outcome \<Rightarrow> (unit, 's) outcome" where
  "forget m = (case m of Return r s \<Rightarrow> Return () s | Throw s \<Rightarrow> Throw s | Undefined \<Rightarrow> Undefined)"

fun append_one :: "'a traits \<Rightarrow> 'a append \<Rightarrow> 'a Vector \<Rightarrow> world
    \<Rightarrow> (unit, 'a Vector \<times> world) outcome" where
  "append_one tr (PushBackCopy x) v w = PushBack tr x v w"
| "append_one tr (PushBackMove x) v w = PushBack_rv tr x v w"
| "append_one tr (EmplaceBackArgs k x) v w = forget (EmplaceBack tr k x v w)"




subsection \<open>Example element types and states\<close>

text \<open>
  \<open>int_traits\<close> behaves like \<^verbatim>\<open>int\<close>: moving is copying and cannot throw.
  \<open>string_traits\<close> behaves like \<^verbatim>\<open>std::string\<close>: a move cannot throw and leaves the
  source empty.  \<open>throwing_traits\<close> is a string-like type whose move constructor may
  throw, so that it is transferred by copy.  \<open>handle_traits\<close> is a move-only type
  whose move constructor may throw and leaves 0 in the source.
\<close>

definition int_traits :: "int traits" where
  "int_traits = \<lparr>nothrow_move_constructible = True, copy_constructible = True,
                 moved_from = (\<lambda>x. x), value_init = 0\<rparr>"

definition string_traits :: "string traits" where
  "string_traits = \<lparr>nothrow_move_constructible = True, copy_constructible = True,
                    moved_from = (\<lambda>x. []), value_init = []\<rparr>"

definition throwing_traits :: "string traits" where
  "throwing_traits = \<lparr>nothrow_move_constructible = False, copy_constructible = True,
                      moved_from = (\<lambda>x. []), value_init = []\<rparr>"



definition scheduled :: "bool list \<Rightarrow> world" where
  "scheduled bs = \<lparr>faults = bs, next_addr = 1, trace = []\<rparr>"

text \<open>The world a call leaves when every scheduled decision has been consumed.\<close>

definition settled :: "nat \<Rightarrow> event list \<Rightarrow> world" where
  "settled a t = \<lparr>faults = [], next_addr = a, trace = t\<rparr>"

text \<open>
  An array that owns the allocation at address \<open>a\<close> and holds \<open>xs\<close> in \<open>c\<close> slots;
  \<open>holding\<close> is the one at address 1, the allocation made before \<open>scheduled\<close> starts.
\<close>

definition holding_at :: "nat \<Rightarrow> 'a list \<Rightarrow> nat \<Rightarrow> 'a Vector" where
  "holding_at a xs c =
     \<lparr>data_m = \<lparr>buffer_m = a, capacity_m = c,
                cells = map Obj xs @ replicate (c - length xs) Raw\<rparr>,
      size_m = length xs\<rparr>"

definition holding :: "'a list \<Rightarrow> nat \<Rightarrow> 'a Vector" where
  "holding xs c = holding_at 1 xs c"

subsection \<open>Example stores\<close>

text \<open>
  Two array objects, 0 and 1, at the addresses 1 and 2 (so a world that continues
  from them starts at address 2): a short one assigned from a long one, and a long one
  assigned from a short one.
\<close>

definition scheduled_from :: "nat \<Rightarrow> bool list \<Rightarrow> world" where
  "scheduled_from a bs = \<lparr>faults = bs, next_addr = a, trace = []\<rparr>"

definition pair_store :: "'a Vector \<Rightarrow> 'a Vector \<Rightarrow> 'a store" where
  "pair_store a b = (\<lambda>i. Vector_default)(0 := a, 1 := b)"

definition short_long :: "int store" where
  "short_long = pair_store (holding_at 1 [1, 2] 2) (holding_at 2 [3, 4, 5, 6, 7] 5)"

definition long_short :: "int store" where
  "long_short = pair_store (holding_at 1 [3, 4, 5, 6, 7] 5) (holding_at 2 [1, 2] 2)"

section \<open>Properties of the model\<close>

lemma attempt_Inr: "attempt b e w = Inr w1 \<Longrightarrow> trace w1 = trace w @ [e] \<and> next_addr w1 = next_addr w"
  by (auto simp: attempt_def emit_def advance_def split: if_splits)

lemma attempt_Inl: "attempt b e w = Inl w1 \<Longrightarrow> trace w1 = trace w \<and> next_addr w1 = next_addr w \<and> b"
  by (auto simp: attempt_def emit_def advance_def split: if_splits)

lemma attempt_quiet: "faults w = [] \<Longrightarrow> attempt b e w = Inr (emit e w)"
  by (simp add: attempt_def throws_def advance_def emit_def)


lemma emit_fields [simp]:
  "trace (emit e w) = trace w @ [e]" "next_addr (emit e w) = next_addr w" "faults (emit e w) = faults w"
  by (simp_all add: emit_def)

lemma destroy_n_Return:
  "destroy_n f n cs w = Return u (cs', w') \<Longrightarrow>
     cs' = take f cs @ replicate n Raw @ drop (f + n) cs \<and> (0 < n \<longrightarrow> f + n \<le> length cs) \<and>
     trace w' = trace w @ replicate n Dtor \<and> next_addr w' = next_addr w \<and> faults w' = faults w"
proof (induction n arbitrary: f cs w)
  case 0
  then show ?case by simp
next
  case (Suc n)
  from Suc.prems have ok: "f < length cs" "cs ! f \<noteq> Raw"
    and rec: "destroy_n (Suc f) n (cs[f := Raw]) (emit Dtor w) = Return u (cs', w')"
    by (auto split: if_splits)
  from Suc.IH[OF rec] ok show ?case
    by (cases "n = 0") (auto simp: take_Suc_conv_app_nth replicate_append_same)
qed

lemma destroy_n_no_Throw: "destroy_n f n cs w \<noteq> Throw s"
  by (induction n arbitrary: f cs w) auto

lemma destroy_n_defined:
  "f + n \<le> length cs \<Longrightarrow> \<forall>i. f \<le> i \<and> i < f + n \<longrightarrow> cs ! i \<noteq> Raw \<Longrightarrow>
   \<exists>cs' w'. destroy_n f n cs w = Return () (cs', w')"
proof (induction n arbitrary: f cs w)
  case 0
  then show ?case by simp
next
  case (Suc n)
  have "\<exists>cs' w'. destroy_n (Suc f) n (cs[f := Raw]) (emit Dtor w) = Return () (cs', w')"
    using Suc.prems by (intro Suc.IH) auto
  with Suc.prems show ?case by auto
qed

lemma ucopy_Return:
  "uninitialized_copy_n src f n dst t w = Return u (dst', w') \<Longrightarrow>
     dst' = take t dst @ take n (drop f src) @ drop (t + n) dst \<and>
     (0 < n \<longrightarrow> f + n \<le> length src \<and> t + n \<le> length dst) \<and>
     trace w' = trace w @ replicate n (Ctor Copy) \<and> next_addr w' = next_addr w"
proof (induction n arbitrary: f dst t w)
  case 0
  then show ?case by simp
next
  case (Suc n)
  from Suc.prems obtain x w1 where ok: "f < length src" "t < length dst" "src ! f = Obj x"
    and att: "attempt True (Ctor Copy) w = Inr w1"
    and rec: "uninitialized_copy_n src (Suc f) n (dst[t := Obj x]) (Suc t) w1 = Return u (dst', w')"
    by (auto split: if_splits slot.splits sum.splits outcome.splits)
  from Suc.IH[OF rec] ok attempt_Inr[OF att] show ?case
    by (cases "n = 0")
       (auto simp: take_Suc_conv_app_nth replicate_append_same Cons_nth_drop_Suc[symmetric])
qed

lemma ucopy_Throw:
  "uninitialized_copy_n src f n dst t w = Throw (dst', w') \<Longrightarrow>
   \<forall>i. t \<le> i \<and> i < t + n \<longrightarrow> dst ! i = Raw \<Longrightarrow>
     dst' = dst \<and> next_addr w' = next_addr w \<and>
     (\<exists>k. trace w' = trace w @ replicate k (Ctor Copy) @ replicate k Dtor)"
proof (induction n arbitrary: f dst t w dst' w')
  case 0
  then show ?case by simp
next
  case (Suc n)
  from Suc.prems(1) obtain x where ok: "f < length src" "t < length dst" "src ! f = Obj x"
    by (auto split: if_splits slot.splits)
  show ?case
  proof (cases "attempt True (Ctor Copy) w")
    case (Inl w1)
    with Suc.prems(1) ok have "dst' = dst" "w' = w1" by auto
    with attempt_Inl[OF Inl] show ?thesis
      by (auto intro: exI[of _ 0])
  next
    case (Inr w1)
    with Suc.prems(1) ok obtain d2 w2 where
      rec: "uninitialized_copy_n src (Suc f) n (dst[t := Obj x]) (Suc t) w1 = Throw (d2, w2)"
      and res: "dst' = d2[t := Raw]" "w' = emit Dtor w2"
      by (auto split: outcome.splits)
    have raw: "\<forall>i. Suc t \<le> i \<and> i < Suc t + n \<longrightarrow> (dst[t := Obj x]) ! i = Raw"
      using Suc.prems(2) by auto
    from Suc.IH[OF rec raw] obtain k where
      d2: "d2 = dst[t := Obj x]" and na: "next_addr w2 = next_addr w1"
      and tr: "trace w2 = trace w1 @ replicate k (Ctor Copy) @ replicate k Dtor"
      by blast
    have "dst ! t = Raw" using Suc.prems(2) by simp
    then have "dst' = dst" using res d2 list_update_id[of dst t] by simp
    moreover have "trace w' = trace w @ replicate (Suc k) (Ctor Copy) @ replicate (Suc k) Dtor"
      using res tr attempt_Inr[OF Inr] by (simp add: replicate_append_same)
    ultimately show ?thesis using res na attempt_Inr[OF Inr] by (auto intro: exI[of _ "Suc k"])
  qed
qed

lemma umove_Return:
  "uninitialized_move_n tr src f n dst t w = Return u ((src', dst'), w') \<Longrightarrow>
     dst' = take t dst @ take n (drop f src) @ drop (t + n) dst \<and>
     src' = take f src @ map (after_move tr) (take n (drop f src)) @ drop (f + n) src \<and>
     (0 < n \<longrightarrow> f + n \<le> length src \<and> t + n \<le> length dst) \<and>
     trace w' = trace w @ replicate n (Ctor Move) \<and> next_addr w' = next_addr w"
proof (induction n arbitrary: f src dst t w)
  case 0
  then show ?case by simp
next
  case (Suc n)
  from Suc.prems obtain x w1 where ok: "f < length src" "t < length dst" "src ! f = Obj x"
    and att: "attempt (may_throw tr Move) (Ctor Move) w = Inr w1"
    and rec: "uninitialized_move_n tr (src[f := Obj (moved_from tr x)]) (Suc f) n
                (dst[t := Obj x]) (Suc t) w1 = Return u ((src', dst'), w')"
    by (auto split: if_splits slot.splits sum.splits outcome.splits)
  from Suc.IH[OF rec] ok attempt_Inr[OF att] show ?case
    by (cases "n = 0")
       (auto simp: take_Suc_conv_app_nth replicate_append_same Cons_nth_drop_Suc[symmetric]
                   after_move_def)
qed



lemma UCM_Return:
  assumes that: "UninitializedCopyOrMoveN tr src f n dst t w = Return u ((src', dst'), w')"
  shows "dst' = take t dst @ take n (drop f src) @ drop (t + n) dst \<and>
     src' = (if nothrow_move_constructible tr \<or> \<not> copy_constructible tr
             then take f src @ map (after_move tr) (take n (drop f src)) @ drop (f + n) src
             else src) \<and>
     (0 < n \<longrightarrow> f + n \<le> length src \<and> t + n \<le> length dst) \<and>
     trace w' = trace w @ replicate n
        (Ctor (if nothrow_move_constructible tr \<or> \<not> copy_constructible tr then Move else Copy)) \<and>
     next_addr w' = next_addr w"
proof (cases "nothrow_move_constructible tr \<or> \<not> copy_constructible tr")
  case True
  then have "uninitialized_move_n tr src f n dst t w = Return u ((src', dst'), w')"
    using that by (simp add: UninitializedCopyOrMoveN_def)
  from umove_Return[OF this] True show ?thesis by simp
next
  case False
  then have "uninitialized_copy_n src f n dst t w = Return u (dst', w')" and "src' = src"
    using that by (auto simp: UninitializedCopyOrMoveN_def split: outcome.splits)
  from ucopy_Return[OF this(1)] this(2) False show ?thesis by simp
qed


lemma objs_map_Obj [simp]: "objs (map Obj xs) = xs"
  by (induction xs) auto

lemma all_Obj_map: "list_all (\<lambda>c. c \<noteq> Raw) cs \<Longrightarrow> cs = map Obj (objs cs)"
proof (induction cs)
  case Nil
  then show ?case by simp
next
  case (Cons c cs)
  then show ?case by (cases c) auto
qed

lemma all_Raw_replicate: "list_all (\<lambda>c. c = Raw) cs \<Longrightarrow> cs = replicate (length cs) Raw"
  by (induction cs) auto

lemma invariant_cells:
  assumes "invariant v"
  shows "cells (data_m v) = map Obj (elems v) @ replicate (capacity_m (data_m v) - size_m v) Raw"
    and "length (elems v) = size_m v"
    and "size_m v \<le> capacity_m (data_m v)"
proof -
  let ?cs = "cells (data_m v)"
  from assms have a: "take (size_m v) ?cs = map Obj (elems v)"
    by (simp add: invariant_def elems_def all_Obj_map[symmetric])
  from assms have "drop (size_m v) ?cs = replicate (length (drop (size_m v) ?cs)) Raw"
    unfolding invariant_def by (intro all_Raw_replicate) simp
  with assms have b: "drop (size_m v) ?cs = replicate (capacity_m (data_m v) - size_m v) Raw"
    by (simp add: invariant_def)
  have "?cs = take (size_m v) ?cs @ drop (size_m v) ?cs" by simp
  with a b show "?cs = map Obj (elems v) @ replicate (capacity_m (data_m v) - size_m v) Raw"
    by simp
  from a assms have "length (map Obj (elems v)) = size_m v"
    by (metis invariant_def length_take min.absorb2)
  then show "length (elems v) = size_m v" by simp
  from assms show "size_m v \<le> capacity_m (data_m v)" by (simp add: invariant_def)
qed

lemma invariantI:
  assumes "cells (data_m v) = map Obj xs @ replicate r Raw"
    and "size_m v = length xs" and "capacity_m (data_m v) = length xs + r"
  shows "invariant v \<and> elems v = xs"
  using assms by (simp add: invariant_def elems_def list_all_length)


lemma count_list_replicate: "count_list (replicate k a) e = (if a = e then k else 0)"
  by (induction k) auto

lemma RawMemory_new_Return:
  assumes "RawMemory_new c w = Return (m :: 'a RawMemory) w1" and "c \<noteq> 0"
  shows "m = \<lparr>buffer_m = Suc (next_addr w), capacity_m = c, cells = replicate c Raw\<rparr>"
    and "trace w1 = trace w @ [Alloc]" and "next_addr w1 = Suc (next_addr w)"
  using assms
  by (auto simp: RawMemory_new_def Allocate_def split: sum.splits outcome.splits dest: attempt_Inr)

lemma RawMemory_new_Throw:
  assumes "RawMemory_new c w = Throw w1"
  shows "trace w1 = trace w" and "next_addr w1 = next_addr w"
  using assms
  by (auto simp: RawMemory_new_def Allocate_def split: sum.splits outcome.splits if_splits
           dest: attempt_Inl)

lemma construct_at_Return:
  assumes "construct_at tr k i x cs w = Return u (cs', w')"
  shows "cs' = cs[i := Obj x]" and "i < length cs" and "trace w' = trace w @ [Ctor k]"
    and "next_addr w' = next_addr w"
  using assms
  by (auto simp: construct_at_def split: sum.splits if_splits dest: attempt_Inr)


lemma MakeNewData_Return:
  assumes "MakeNewData tr nd v w = Return u ((v', nd'), w')"
  shows "data_m v' = nd\<lparr>cells := take (size_m v) (cells (data_m v)) @ drop (size_m v) (cells nd)\<rparr>"
    and "size_m v' = size_m v"
    and "buffer_m nd' = buffer_m (data_m v)" and "capacity_m nd' = capacity_m (data_m v)"
    and "trace w' = trace w @ replicate (size_m v)
           (Ctor (if nothrow_move_constructible tr \<or> \<not> copy_constructible tr then Move else Copy))
           @ replicate (size_m v) Dtor"
    and "next_addr w' = next_addr w"
proof -
  from assms obtain src dst w1 src2 where
    ucm: "UninitializedCopyOrMoveN tr (cells (data_m v)) 0 (size_m v) (cells nd) 0 w
            = Return () ((src, dst), w1)"
    and des: "destroy_n 0 (size_m v) src w1 = Return () (src2, w')"
    and res: "v' = v\<lparr>data_m := nd\<lparr>cells := dst\<rparr>\<rparr>" "nd' = (data_m v)\<lparr>cells := src2\<rparr>"
    by (auto simp: MakeNewData_def RawMemory_Swap_def split: outcome.splits prod.splits)
  note a = UCM_Return[OF ucm] and b = destroy_n_Return[OF des]
  from a res show "data_m v' = nd\<lparr>cells := take (size_m v) (cells (data_m v)) @ drop (size_m v) (cells nd)\<rparr>"
    by simp
  from res show "size_m v' = size_m v" "buffer_m nd' = buffer_m (data_m v)"
    "capacity_m nd' = capacity_m (data_m v)" by simp_all
  from a b show "trace w' = trace w @ replicate (size_m v)
           (Ctor (if nothrow_move_constructible tr \<or> \<not> copy_constructible tr then Move else Copy))
           @ replicate (size_m v) Dtor" by simp
  from a b show "next_addr w' = next_addr w" by simp
qed

lemma set_cells_same [simp]: "set_cells v (cells (data_m v)) = v"
  by (simp add: set_cells_def)



lemma destroy_at_Return:
  assumes "destroy_at i cs w = Return u (cs', w')"
  shows "cs' = cs[i := Raw]" and "i < length cs" and "cs ! i \<noteq> Raw"
    and "trace w' = trace w @ [Dtor]" and "next_addr w' = next_addr w" and "faults w' = faults w"
  using assms by (auto simp: destroy_at_def split: if_splits)

lemma MakeNewDataSafe_Return:
  "MakeNewDataSafe tr nd p v w = Return u s \<Longrightarrow> MakeNewData tr nd v w = Return u s"
  by (auto simp: MakeNewDataSafe_def split: outcome.splits prod.splits)


lemma replicate_update0: "0 < r \<Longrightarrow> (replicate r a)[0 := y] = y # replicate (r - 1) a"
  by (cases r) auto

lemma drop_replicate_update:
  "n < c \<Longrightarrow> drop n ((replicate c a)[n := y]) = y # replicate (c - Suc n) a"
  by (simp add: drop_update_swap replicate_update0)


lemma EmplaceBack_realloc:
  "size_m v = capacity_m (data_m v) \<Longrightarrow>
   EmplaceBack tr k x v w =
     (case RawMemory_new (if size_m v = 0 then 1 else size_m v * 2) w of
        Return new_data w1 \<Rightarrow>
          (case construct_at tr k (size_m v) x (cells new_data) w1 of
             Return _ (nc, w2) \<Rightarrow>
               (case MakeNewDataSafe tr (new_data\<lparr>cells := nc\<rparr>) (size_m v) v w2 of
                  Return _ ((v', nd), w3) \<Rightarrow>
                    Return (size_m v') (v'\<lparr>size_m := size_m v' + 1\<rparr>, RawMemory_destroy nd w3)
                | Throw ((v', nd), w3) \<Rightarrow> Throw (v', RawMemory_destroy nd w3)
                | Undefined \<Rightarrow> Undefined)
           | Throw (nc, w2) \<Rightarrow> Throw (v, RawMemory_destroy (new_data\<lparr>cells := nc\<rparr>) w2)
           | Undefined \<Rightarrow> Undefined)
      | Throw w1 \<Rightarrow> Throw (v, w1)
      | Undefined \<Rightarrow> Undefined)"
  by (simp add: EmplaceBack_def Capacity_raw_def)



lemma forget_simps [simp]:
  "forget (Return r s) = Return () s" "forget (Throw s) = Throw s" "forget Undefined = Undefined"
  by (simp_all add: forget_def)

lemma forget_case:
  "forget (case m of Return r s \<Rightarrow> f r s | Throw s \<Rightarrow> g s | Undefined \<Rightarrow> h)
   = (case m of Return r s \<Rightarrow> forget (f r s) | Throw s \<Rightarrow> forget (g s) | Undefined \<Rightarrow> forget h)"
  by (cases m) simp_all

lemma forget_case_prod:
  "forget (case p of (a, b) \<Rightarrow> f a b) = (case p of (a, b) \<Rightarrow> forget (f a b))"
  by (cases p) simp

lemma forget_if: "forget (if c then a else b) = (if c then forget a else forget b)"
  by simp

lemma PushBack_EmplaceBack: "PushBack tr x v w = forget (EmplaceBack tr Copy x v w)"
  unfolding PushBack_def EmplaceBack_def
  by (simp only: forget_if forget_case forget_case_prod forget_simps)

lemma PushBack_rv_EmplaceBack: "PushBack_rv tr x v w = forget (EmplaceBack tr Move x v w)"
  unfolding PushBack_rv_def EmplaceBack_def
  by (simp only: forget_if forget_case forget_case_prod forget_simps)

lemma append_one_EmplaceBack:
  "append_one tr a v w = forget (EmplaceBack tr (ctor_of a) (appended a) v w)"
  by (cases a) (simp_all add: PushBack_EmplaceBack PushBack_rv_EmplaceBack)

lemma forget_Return: "forget m = Return u s \<Longrightarrow> \<exists>r. m = Return r s"
  by (cases m) simp_all











lemma attempt_quiet_faults:
  "faults w = [] \<Longrightarrow> attempt b e w = Inr (emit e w) \<and> faults (emit e w) = []"
  by (simp add: attempt_quiet)

lemma ucopy_quiet:
  "faults w = [] \<Longrightarrow> f + n \<le> length src \<Longrightarrow> t + n \<le> length dst \<Longrightarrow>
   \<forall>i. f \<le> i \<and> i < f + n \<longrightarrow> src ! i \<noteq> Raw \<Longrightarrow>
   \<exists>dst' w'. uninitialized_copy_n src f n dst t w = Return () (dst', w') \<and> faults w' = []"
proof (induction n arbitrary: f dst t w)
  case 0
  then show ?case by simp
next
  case (Suc n)
  from Suc.prems(4) obtain x where x: "src ! f = Obj x" by (cases "src ! f") auto
  have "\<exists>dst' w'. uninitialized_copy_n src (Suc f) n (dst[t := Obj x]) (Suc t)
                     (emit (Ctor Copy) w) = Return () (dst', w') \<and> faults w' = []"
    using Suc.prems by (intro Suc.IH) auto
  with Suc.prems x show ?case by (auto simp: attempt_quiet)
qed



lemma destroy_n_quiet:
  "faults w = [] \<Longrightarrow> f + n \<le> length cs \<Longrightarrow> \<forall>i. f \<le> i \<and> i < f + n \<longrightarrow> cs ! i \<noteq> Raw \<Longrightarrow>
   \<exists>cs' w'. destroy_n f n cs w = Return () (cs', w') \<and> faults w' = []"
  using destroy_n_defined[of f n cs w] destroy_n_Return[of f n cs w] by metis

lemma RawMemory_new_quiet:
  "faults w = [] \<Longrightarrow> \<exists>m w1. RawMemory_new c w = Return (m :: 'a RawMemory) w1 \<and> faults w1 = []"
  by (simp add: RawMemory_new_def Allocate_def attempt_quiet)

lemma RawMemory_destroy_fields [simp]:
  "faults (RawMemory_destroy m w) = faults w" "next_addr (RawMemory_destroy m w) = next_addr w"
  by (simp_all add: RawMemory_destroy_def Deallocate_def)

lemma after_move_not_Raw [simp]: "after_move tr c \<noteq> Raw \<longleftrightarrow> c \<noteq> Raw"
  by (cases c) (simp_all add: after_move_def)


lemma Reserve_Return:
  assumes inv: "invariant v" and grow: "capacity_m (data_m v) < n"
    and run: "Reserve tr n v w = Return u (v', w')"
  shows "invariant v'" and "elems v' = elems v" and "size_m v' = size_m v"
    and "capacity_m (data_m v') = n" and "buffer_m (data_m v') = Suc (next_addr w)"
    and "trace w' = trace w @ [Alloc] @ replicate (size_m v)
           (Ctor (if nothrow_move_constructible tr \<or> \<not> copy_constructible tr then Move else Copy))
           @ replicate (size_m v) Dtor @ (if buffer_m (data_m v) = 0 then [] else [Dealloc])"
proof -
  note c = invariant_cells[OF inv]
  from grow have n0: "n \<noteq> 0" by simp
  from run grow obtain nd w1 nd' w2 where
    al: "RawMemory_new n w = Return (nd :: 'a RawMemory) w1"
    and mk: "MakeNewData tr nd v w1 = Return () ((v', nd'), w2)"
    and res: "w' = RawMemory_destroy nd' w2"
    by (fastforce simp: Reserve_def Capacity_raw_def split: outcome.splits prod.splits)
  note a = RawMemory_new_Return[OF al n0]
  note m = MakeNewData_Return[OF mk]
  have cells': "cells (data_m v') = map Obj (elems v) @ replicate (n - size_m v) Raw"
    using m(1) a(1) c by simp
  have "invariant v' \<and> elems v' = elems v"
    using cells' m(1,2) a(1) c grow by (intro invariantI[where r = "n - size_m v"]) auto
  then show "invariant v'" and "elems v' = elems v" by simp_all
  from m(2) show "size_m v' = size_m v" .
  from m(1) a(1) show "capacity_m (data_m v') = n" "buffer_m (data_m v') = Suc (next_addr w)"
    by simp_all
  from res m(3,5) a(2) show "trace w' = trace w @ [Alloc] @ replicate (size_m v)
           (Ctor (if nothrow_move_constructible tr \<or> \<not> copy_constructible tr then Move else Copy))
           @ replicate (size_m v) Dtor @ (if buffer_m (data_m v) = 0 then [] else [Dealloc])"
    by (simp add: RawMemory_destroy_def Deallocate_def)
qed


lemma live_objects_trace:
  "trace w' = trace w @ t \<Longrightarrow>
   live_objects w' = live_objects w + int (length (filter is_ctor t)) - int (count_list t Dtor)"
  by (simp add: live_objects_def calls_def)

lemma live_blocks_trace:
  "trace w' = trace w @ t \<Longrightarrow>
   live_blocks w' = live_blocks w + int (count_list t Alloc) - int (count_list t Dealloc)"
  by (simp add: live_blocks_def calls_def)

lemma live_same_trace:
  "trace w' = trace w \<Longrightarrow> live_objects w' = live_objects w \<and> live_blocks w' = live_blocks w"
  by (simp add: live_objects_def live_blocks_def calls_def)

lemma filter_is_ctor_replicate [simp]:
  "filter is_ctor (replicate k (Ctor c)) = replicate k (Ctor c)"
  "filter is_ctor (replicate k Dtor) = []"
  by (induction k) auto






lemma EmplaceBack_realloc_trace:
  assumes eq: "size_m v = capacity_m (data_m v)"
    and run: "EmplaceBack tr k x v w = Return i (v', w')"
  shows "trace w' = trace w @ [Alloc, Ctor k] @ replicate (size_m v)
           (Ctor (if nothrow_move_constructible tr \<or> \<not> copy_constructible tr then Move else Copy))
           @ replicate (size_m v) Dtor @ (if buffer_m (data_m v) = 0 then [] else [Dealloc])"
proof -
  let ?c = "if size_m v = 0 then 1 else size_m v * 2"
  have cpos: "?c \<noteq> 0" by auto
  from run obtain nd w1 nc w2 v1 nd1 w3 where
    al: "RawMemory_new ?c w = Return (nd :: 'a RawMemory) w1"
    and con: "construct_at tr k (size_m v) x (cells nd) w1 = Return () (nc, w2)"
    and mk: "MakeNewDataSafe tr (nd\<lparr>cells := nc\<rparr>) (size_m v) v w2 = Return () ((v1, nd1), w3)"
    and res: "w' = RawMemory_destroy nd1 w3"
    unfolding EmplaceBack_realloc[OF eq]
    by (fastforce split: outcome.splits prod.splits)
  note a = RawMemory_new_Return[OF al cpos]
  note k = construct_at_Return[OF con]
  note m = MakeNewData_Return[OF MakeNewDataSafe_Return[OF mk]]
  from res m(3,5) k(3) a(2) show ?thesis
    by (simp add: RawMemory_destroy_def Deallocate_def)
qed

lemma Emplace_realloc:
  "cpos \<le> size_m v \<Longrightarrow> size_m v = capacity_m (data_m v) \<Longrightarrow>
   Emplace tr k cpos x v w =
           (case RawMemory_new (if size_m v = 0 then 1 else size_m v * 2) w of
              Return new_data w1 \<Rightarrow>
                (case construct_at tr k cpos x (cells new_data) w1 of
                   Return _ (nc1, w2) \<Rightarrow>
                     (case UninitializedCopyOrMoveN tr (cells (data_m v)) 0 cpos nc1 0 w2 of
                        Return _ ((oc2, nc2), w3) \<Rightarrow>
                          (case UninitializedCopyOrMoveN tr oc2 cpos (size_m v - cpos) nc2
                                  (cpos + 1) w3 of
                             Return _ ((oc3, nc3), w4) \<Rightarrow>
                               (case destroy_n 0 (size_m v) oc3 w4 of
                                  Return _ (oc4, w5) \<Rightarrow>
                                    (let (d, nd) = RawMemory_Swap
                                           ((data_m v)\<lparr>cells := oc4\<rparr>, new_data\<lparr>cells := nc3\<rparr>)
                                     in Return (buffer_m new_data, cpos)
                                          (\<lparr>data_m = d, size_m = size_m v + 1\<rparr>,
                                           RawMemory_destroy nd w5))
                                | Throw (oc4, w5) \<Rightarrow>
                                    Throw (set_cells v oc4,
                                           RawMemory_destroy (new_data\<lparr>cells := nc3\<rparr>) w5)
                                | Undefined \<Rightarrow> Undefined)
                           | Throw ((oc3, nc3), w4) \<Rightarrow>
                               (case destroy_n 0 (cpos + 1) nc3 w4 of
                                  Return _ (nc4, w5) \<Rightarrow>
                                    Throw (set_cells v oc3,
                                           RawMemory_destroy (new_data\<lparr>cells := nc4\<rparr>) w5)
                                | Throw (nc4, w5) \<Rightarrow>
                                    Throw (set_cells v oc3,
                                           RawMemory_destroy (new_data\<lparr>cells := nc4\<rparr>) w5)
                                | Undefined \<Rightarrow> Undefined)
                           | Undefined \<Rightarrow> Undefined)
                      | Throw ((oc2, nc2), w3) \<Rightarrow>
                          (case destroy_at cpos nc2 w3 of
                             Return _ (nc3, w4) \<Rightarrow>
                               Throw (set_cells v oc2,
                                      RawMemory_destroy (new_data\<lparr>cells := nc3\<rparr>) w4)
                           | Throw (nc3, w4) \<Rightarrow>
                               Throw (set_cells v oc2,
                                      RawMemory_destroy (new_data\<lparr>cells := nc3\<rparr>) w4)
                           | Undefined \<Rightarrow> Undefined)
                      | Undefined \<Rightarrow> Undefined)
                 | Throw (nc1, w2) \<Rightarrow>
                     Throw (v, RawMemory_destroy (new_data\<lparr>cells := nc1\<rparr>) w2)
                 | Undefined \<Rightarrow> Undefined)
            | Throw w1 \<Rightarrow> Throw (v, w1)
            | Undefined \<Rightarrow> Undefined)"
  by (simp add: Emplace_def Capacity_raw_def)

lemma Emplace_realloc_Return:
  assumes inv: "invariant v" and eq: "size_m v = capacity_m (data_m v)"
    and pos: "cpos \<le> size_m v"
    and run: "Emplace tr k cpos x v w = Return it (v', w')"
  shows "invariant v'" and "elems v' = take cpos (elems v) @ x # drop cpos (elems v)"
    and "it = (buffer_m (data_m v'), cpos)" and "size_m v' = Suc (size_m v)"
    and "capacity_m (data_m v') = max (size_m v * 2) 1"
    and "trace w' = trace w @ [Alloc, Ctor k]
           @ replicate cpos
              (Ctor (if nothrow_move_constructible tr \<or> \<not> copy_constructible tr then Move else Copy))
           @ replicate (size_m v - cpos)
              (Ctor (if nothrow_move_constructible tr \<or> \<not> copy_constructible tr then Move else Copy))
           @ replicate (size_m v) Dtor @ (if buffer_m (data_m v) = 0 then [] else [Dealloc])"
proof -
  note c = invariant_cells[OF inv]
  let ?n = "size_m v" and ?xs = "elems v"
  let ?c = "if ?n = 0 then 1 else ?n * 2"
  have cpos: "?c \<noteq> 0" "?n < ?c" "cpos < ?c" using pos by auto
  from eq c have full: "cells (data_m v) = map Obj ?xs" by simp
  from run obtain nd w1 nc1 w2 oc2 nc2 w3 oc3 nc3 w4 oc4 w5 where
    al: "RawMemory_new ?c w = Return (nd :: 'a RawMemory) w1"
    and con: "construct_at tr k cpos x (cells nd) w1 = Return () (nc1, w2)"
    and u1: "UninitializedCopyOrMoveN tr (cells (data_m v)) 0 cpos nc1 0 w2
               = Return () ((oc2, nc2), w3)"
    and u2: "UninitializedCopyOrMoveN tr oc2 cpos (?n - cpos) nc2 (cpos + 1) w3
               = Return () ((oc3, nc3), w4)"
    and des: "destroy_n 0 ?n oc3 w4 = Return () (oc4, w5)"
    and res: "v' = \<lparr>data_m = nd\<lparr>cells := nc3\<rparr>, size_m = ?n + 1\<rparr>"
             "w' = RawMemory_destroy ((data_m v)\<lparr>cells := oc4\<rparr>) w5"
             "it = (buffer_m nd, cpos)"
    unfolding Emplace_realloc[OF pos eq]
    by (fastforce simp: RawMemory_Swap_def split: outcome.splits prod.splits)
  note a = RawMemory_new_Return[OF al cpos(1)]
  note k = construct_at_Return[OF con]
  note r1 = UCM_Return[OF u1]
  note r2 = UCM_Return[OF u2]
  note d = destroy_n_Return[OF des]
  have len: "length ?xs = ?n" using c by simp
  have nc2: "nc2 = map Obj (take cpos ?xs) @ Obj x # replicate (?c - Suc cpos) Raw"
    using r1 k(1) a(1) full cpos(3) by (simp add: drop_replicate_update take_map)
  have oc2: "drop cpos oc2 = map Obj (drop cpos ?xs)"
    using r1 full pos len by (auto simp: drop_map split: if_splits)
  have tail: "drop (Suc ?n - cpos) (Obj x # replicate (?c - Suc cpos) Raw)
                = replicate (?c - Suc ?n) Raw"
  proof -
    have "Suc ?n - cpos = Suc (?n - cpos)" using pos by simp
    moreover have "?c - Suc cpos - (?n - cpos) = ?c - Suc ?n" using pos by simp
    ultimately show ?thesis by simp
  qed
  have "nc3 = take (cpos + 1) nc2 @ take (?n - cpos) (drop cpos oc2) @ drop (cpos + 1 + (?n - cpos)) nc2"
    using r2 by simp
  then have nc3: "nc3 = map Obj (take cpos ?xs @ x # drop cpos ?xs) @ replicate (?c - Suc ?n) Raw"
    using nc2 oc2 pos len tail by (simp add: min_absorb2)
  have "invariant v' \<and> elems v' = take cpos ?xs @ x # drop cpos ?xs"
    using res(1) nc3 a(1) len pos cpos(2)
    by (intro invariantI[where r = "?c - Suc ?n"]) auto
  then show "invariant v'" and "elems v' = take cpos (elems v) @ x # drop cpos (elems v)"
    by simp_all
  from res a(1) show "it = (buffer_m (data_m v'), cpos)" "size_m v' = Suc (size_m v)"
    "capacity_m (data_m v') = max (size_m v * 2) 1" by auto
  from res(2) d r2 r1 k(3) a(2) show "trace w' = trace w @ [Alloc, Ctor k]
           @ replicate cpos
              (Ctor (if nothrow_move_constructible tr \<or> \<not> copy_constructible tr then Move else Copy))
           @ replicate (size_m v - cpos)
              (Ctor (if nothrow_move_constructible tr \<or> \<not> copy_constructible tr then Move else Copy))
           @ replicate (size_m v) Dtor @ (if buffer_m (data_m v) = 0 then [] else [Dealloc])"
    by (simp add: RawMemory_destroy_def Deallocate_def)
qed

lemma uvalue_Return:
  "uninitialized_value_construct_n tr f n cs w = Return u (cs', w') \<Longrightarrow>
     cs' = take f cs @ replicate n (Obj (value_init tr)) @ drop (f + n) cs \<and>
     (0 < n \<longrightarrow> f + n \<le> length cs) \<and>
     trace w' = trace w @ replicate n (Ctor ValueInit) \<and> next_addr w' = next_addr w"
proof (induction n arbitrary: f cs w)
  case 0
  then show ?case by simp
next
  case (Suc n)
  from Suc.prems obtain w1 where ok: "f < length cs"
    and att: "attempt True (Ctor ValueInit) w = Inr w1"
    and rec: "uninitialized_value_construct_n tr (Suc f) n (cs[f := Obj (value_init tr)]) w1
                = Return u (cs', w')"
    by (auto split: if_splits sum.splits outcome.splits)
  from Suc.IH[OF rec] ok attempt_Inr[OF att] show ?case
    by (cases "n = 0") (auto simp: take_Suc_conv_app_nth replicate_append_same)
qed

lemma uvalue_Throw:
  "uninitialized_value_construct_n tr f n cs w = Throw (cs', w') \<Longrightarrow>
   \<forall>i. f \<le> i \<and> i < f + n \<longrightarrow> cs ! i = Raw \<Longrightarrow>
     cs' = cs \<and> next_addr w' = next_addr w \<and>
     (\<exists>k. trace w' = trace w @ replicate k (Ctor ValueInit) @ replicate k Dtor)"
proof (induction n arbitrary: f cs w cs' w')
  case 0
  then show ?case by simp
next
  case (Suc n)
  from Suc.prems(1) have ok: "f < length cs" by (auto split: if_splits)
  show ?case
  proof (cases "attempt True (Ctor ValueInit) w")
    case (Inl w1)
    with Suc.prems(1) ok have "cs' = cs" "w' = w1" by auto
    with attempt_Inl[OF Inl] show ?thesis by (auto intro: exI[of _ 0])
  next
    case (Inr w1)
    with Suc.prems(1) ok obtain c2 w2 where
      rec: "uninitialized_value_construct_n tr (Suc f) n (cs[f := Obj (value_init tr)]) w1
              = Throw (c2, w2)"
      and res: "cs' = c2[f := Raw]" "w' = emit Dtor w2"
      by (auto split: outcome.splits)
    have raw: "\<forall>i. Suc f \<le> i \<and> i < Suc f + n \<longrightarrow> (cs[f := Obj (value_init tr)]) ! i = Raw"
      using Suc.prems(2) by auto
    from Suc.IH[OF rec raw] obtain k where
      c2: "c2 = cs[f := Obj (value_init tr)]" and na: "next_addr w2 = next_addr w1"
      and tr: "trace w2 = trace w1 @ replicate k (Ctor ValueInit) @ replicate k Dtor"
      by blast
    have "cs ! f = Raw" using Suc.prems(2) by simp
    then have "cs' = cs" using res c2 list_update_id[of cs f] by simp
    moreover have "trace w' = trace w @ replicate (Suc k) (Ctor ValueInit) @ replicate (Suc k) Dtor"
      using res tr attempt_Inr[OF Inr] by (simp add: replicate_append_same)
    ultimately show ?thesis using res na attempt_Inr[OF Inr] by (auto intro: exI[of _ "Suc k"])
  qed
qed


lemma RawMemory_new_Return_any:
  assumes "RawMemory_new c w = Return (m :: 'a RawMemory) w1"
  shows "capacity_m m = c" and "cells m = replicate c Raw"
    and "buffer_m m = (if c = 0 then 0 else Suc (next_addr w))"
    and "trace w1 = trace w @ (if c = 0 then [] else [Alloc])"
    and "next_addr w1 = (if c = 0 then next_addr w else Suc (next_addr w))"
  using assms
  by (auto simp: RawMemory_new_def Allocate_def split: sum.splits outcome.splits if_splits
           dest: attempt_Inr)



lemma Vector_copy_Return:
  assumes inv: "invariant other" and run: "Vector_copy other w = Return v w'"
  shows "invariant v" and "elems v = elems other" and "size_m v = size_m other"
    and "capacity_m (data_m v) = size_m other"
    and "buffer_m (data_m v) = (if size_m other = 0 then 0 else Suc (next_addr w))"
    and "trace w' = trace w @ (if size_m other = 0 then [] else [Alloc])
           @ replicate (size_m other) (Ctor Copy)"
proof -
  note c = invariant_cells[OF inv]
  let ?n = "size_m other"
  from run obtain d w1 cs where
    al: "RawMemory_new ?n w = Return (d :: 'a RawMemory) w1"
    and con: "uninitialized_copy_n (cells (data_m other)) 0 ?n (cells d) 0 w1 = Return () (cs, w')"
    and res: "v = \<lparr>data_m = d\<lparr>cells := cs\<rparr>, size_m = ?n\<rparr>"
    by (fastforce simp: Vector_copy_def split: outcome.splits prod.splits)
  note a = RawMemory_new_Return_any[OF al]
  note u = ucopy_Return[OF con]
  have cs: "cs = map Obj (elems other) @ replicate 0 Raw"
    using u a(2) c by simp
  have "invariant v \<and> elems v = elems other"
    using res cs a(1) c by (intro invariantI[where r = 0]) auto
  then show "invariant v" and "elems v = elems other" by simp_all
  from res a(1,3) show "size_m v = ?n" "capacity_m (data_m v) = ?n"
    "buffer_m (data_m v) = (if ?n = 0 then 0 else Suc (next_addr w))" by simp_all
  from u a(4) show "trace w' = trace w @ (if ?n = 0 then [] else [Alloc])
           @ replicate ?n (Ctor Copy)" by simp
qed

lemma Vector_copy_quiet:
  assumes q: "faults w = []" and inv: "invariant other"
  shows "\<exists>v w'. Vector_copy other w = Return v w' \<and> faults w' = []"
proof -
  note c = invariant_cells[OF inv]
  let ?n = "size_m other"
  from RawMemory_new_quiet[OF q, of ?n] obtain d w1 where
    al: "RawMemory_new ?n w = Return (d :: 'a RawMemory) w1" and q1: "faults w1 = []" by blast
  note a = RawMemory_new_Return_any[OF al]
  have live: "\<forall>i. 0 \<le> i \<and> i < 0 + ?n \<longrightarrow> cells (data_m other) ! i \<noteq> Raw"
    using c by (auto simp: nth_append)
  from ucopy_quiet[OF q1 _ _ live, where dst = "cells d" and t = 0] a(2) c obtain cs w2 where
    "uninitialized_copy_n (cells (data_m other)) 0 ?n (cells d) 0 w1 = Return () (cs, w2)"
    "faults w2 = []" by auto
  with al show ?thesis by (simp add: Vector_copy_def)
qed

lemma Vector_copy_Throw:
  assumes "Vector_copy other w = Throw w'"
  shows "live_objects w' = live_objects w" and "live_blocks w' = live_blocks w"
proof -
  let ?n = "size_m other"
  have "live_objects w' = live_objects w \<and> live_blocks w' = live_blocks w"
  proof (cases "RawMemory_new ?n w :: ('a RawMemory, world) outcome")
    case (Throw w1)
    with assms have "w' = w1" by (simp add: Vector_copy_def)
    with RawMemory_new_Throw[OF Throw] live_same_trace[of w' w] show ?thesis by simp
  next
    case Undefined
    with assms show ?thesis by (simp add: Vector_copy_def)
  next
    case (Return d w1)
    note a = RawMemory_new_Return_any[OF Return]
    from assms Return obtain cs w2 where
      con: "uninitialized_copy_n (cells (data_m other)) 0 ?n (cells d) 0 w1 = Throw (cs, w2)"
      and res: "w' = RawMemory_destroy (d\<lparr>cells := cs\<rparr>) w2"
      by (fastforce simp: Vector_copy_def split: outcome.splits prod.splits)
    have n0: "?n \<noteq> 0" using con by (cases ?n) auto
    have raw: "\<forall>i. 0 \<le> i \<and> i < 0 + ?n \<longrightarrow> cells d ! i = Raw" using a(2) by simp
    from ucopy_Throw[OF con raw] obtain k where
      "trace w2 = trace w1 @ replicate k (Ctor Copy) @ replicate k Dtor" by blast
    with res a(3,4) n0
    have t: "trace w' = trace w @ ([Alloc] @ replicate k (Ctor Copy) @ replicate k Dtor @ [Dealloc])"
      by (simp add: RawMemory_destroy_def Deallocate_def)
    from live_objects_trace[OF t] live_blocks_trace[OF t] show ?thesis
      by (simp add: count_list_replicate)
  qed
  then show "live_objects w' = live_objects w" and "live_blocks w' = live_blocks w" by simp_all
qed

lemma assign_at_Return:
  assumes "assign_at e i x cs w = Return u (cs', w')"
  shows "cs' = cs[i := Obj x]" and "i < length cs" and "cs ! i \<noteq> Raw"
    and "trace w' = trace w @ [e]" and "next_addr w' = next_addr w"
  using assms
  by (auto simp: assign_at_def split: sum.splits if_splits dest: attempt_Inr)

lemma assign_at_Throw:
  assumes "assign_at e i x cs w = Throw (cs', w')"
  shows "cs' = cs" and "trace w' = trace w" and "next_addr w' = next_addr w"
  using assms
  by (auto simp: assign_at_def split: sum.splits if_splits dest: attempt_Inl)

lemma assign_at_quiet:
  "faults w = [] \<Longrightarrow> i < length cs \<Longrightarrow> cs ! i \<noteq> Raw \<Longrightarrow>
   assign_at e i x cs w = Return () (cs[i := Obj x], emit e w)"
  by (simp add: assign_at_def attempt_quiet)

lemma copy_assign_loop_Return:
  "copy_assign_loop src i n dst w = Return u (dst', w') \<Longrightarrow>
     dst' = take i dst @ take n (drop i src) @ drop (i + n) dst \<and>
     (0 < n \<longrightarrow> i + n \<le> length src \<and> i + n \<le> length dst) \<and>
     trace w' = trace w @ replicate n CopyAssign \<and> next_addr w' = next_addr w"
proof (induction n arbitrary: i dst w)
  case 0
  then show ?case by simp
next
  case (Suc n)
  from Suc.prems obtain x d1 w1 where ok: "i < length src" "src ! i = Obj x"
    and asg: "assign_at CopyAssign i x dst w = Return () (d1, w1)"
    and rec: "copy_assign_loop src (Suc i) n d1 w1 = Return u (dst', w')"
    by (auto split: if_splits slot.splits outcome.splits)
  note a = assign_at_Return[OF asg]
  from Suc.IH[OF rec] ok a show ?case
    by (cases "n = 0")
       (auto simp: take_Suc_conv_app_nth replicate_append_same Cons_nth_drop_Suc[symmetric])
qed

lemma copy_assign_loop_Throw:
  "copy_assign_loop src i n dst w = Throw (dst', w') \<Longrightarrow>
     length dst' = length dst \<and> next_addr w' = next_addr w \<and>
     (\<exists>k. trace w' = trace w @ replicate k CopyAssign)"
proof (induction n arbitrary: i dst w)
  case 0
  then show ?case by simp
next
  case (Suc n)
  from Suc.prems obtain x where ok: "i < length src" "src ! i = Obj x"
    by (auto split: if_splits slot.splits)
  show ?case
  proof (cases "assign_at CopyAssign i x dst w")
    case (Return u s)
    obtain d1 w1 where s: "s = (d1, w1)" by (cases s)
    with Suc.prems ok Return have rec: "copy_assign_loop src (Suc i) n d1 w1 = Throw (dst', w')"
      by simp
    note a = assign_at_Return[OF Return[unfolded s]]
    from Suc.IH[OF rec] obtain k where
      "length dst' = length d1" "next_addr w' = next_addr w1"
      "trace w' = trace w1 @ replicate k CopyAssign" by blast
    with a have "length dst' = length dst" "next_addr w' = next_addr w"
      "trace w' = trace w @ replicate (Suc k) CopyAssign" by simp_all
    then show ?thesis by blast
  next
    case (Throw s)
    obtain d1 w1 where s: "s = (d1, w1)" by (cases s)
    with Suc.prems ok Throw have "dst' = d1" "w' = w1" by simp_all
    with assign_at_Throw[OF Throw[unfolded s]] show ?thesis by (auto intro: exI[of _ 0])
  next
    case Undefined
    with Suc.prems ok show ?thesis by simp
  qed
qed

lemma copy_assign_loop_quiet:
  "faults w = [] \<Longrightarrow> i + n \<le> length src \<Longrightarrow> i + n \<le> length dst \<Longrightarrow>
   \<forall>j. i \<le> j \<and> j < i + n \<longrightarrow> src ! j \<noteq> Raw \<and> dst ! j \<noteq> Raw \<Longrightarrow>
   \<exists>dst' w'. copy_assign_loop src i n dst w = Return () (dst', w') \<and> faults w' = []"
proof (induction n arbitrary: i dst w)
  case 0
  then show ?case by simp
next
  case (Suc n)
  from Suc.prems(4) obtain x where x: "src ! i = Obj x" by (cases "src ! i") auto
  have a: "assign_at CopyAssign i x dst w = Return () (dst[i := Obj x], emit CopyAssign w)"
    using Suc.prems by (intro assign_at_quiet) auto
  have "\<exists>dst' w'. copy_assign_loop src (Suc i) n (dst[i := Obj x]) (emit CopyAssign w)
           = Return () (dst', w') \<and> faults w' = []"
    using Suc.prems by (intro Suc.IH) auto
  with Suc.prems x a show ?case by auto
qed

lemma Swap_pair [simp]: "Swap (a, b) = (b, a)"
  by (simp add: Swap_def RawMemory_Swap_def)

lemma Vector_destroy_Return:
  assumes "Vector_destroy v w = Return u w'"
  shows "trace w' = trace w @ replicate (size_m v) Dtor
           @ (if buffer_m (data_m v) = 0 then [] else [Dealloc])"
    and "next_addr w' = next_addr w"
proof -
  from assms obtain cs w1 where
    d: "destroy_n 0 (size_m v) (cells (data_m v)) w = Return () (cs, w1)"
    and res: "w' = RawMemory_destroy (data_m v) w1"
    by (fastforce simp: Vector_destroy_def split: outcome.splits prod.splits)
  from destroy_n_Return[OF d] res
  show "trace w' = trace w @ replicate (size_m v) Dtor
           @ (if buffer_m (data_m v) = 0 then [] else [Dealloc])"
    and "next_addr w' = next_addr w"
    by (simp_all add: RawMemory_destroy_def Deallocate_def)
qed

lemma Vector_destroy_no_Throw: "Vector_destroy v w \<noteq> Throw s"
  by (auto simp: Vector_destroy_def destroy_n_no_Throw split: outcome.splits prod.splits)

lemma Vector_destroy_quiet:
  assumes "faults w = []" and "invariant v"
  shows "\<exists>w'. Vector_destroy v w = Return () w' \<and> faults w' = []"
proof -
  note c = invariant_cells[OF assms(2)]
  have live: "\<forall>i. 0 \<le> i \<and> i < 0 + size_m v \<longrightarrow> cells (data_m v) ! i \<noteq> Raw"
    using c by (auto simp: nth_append)
  from destroy_n_quiet[OF assms(1) _ live] c obtain cs w1 where
    "destroy_n 0 (size_m v) (cells (data_m v)) w = Return () (cs, w1)" "faults w1 = []"
    by auto
  then show ?thesis by (simp add: Vector_destroy_def)
qed


lemma copy_assign_rebuild:
  "this \<noteq> other \<Longrightarrow> capacity_m (data_m (s this)) < size_m (s other) \<Longrightarrow>
   copy_assign tr this other s w =
     (case Vector_copy (s other) w of
        Return other_copy w1 \<Rightarrow>
          (case Vector_destroy (s this) w1 of
             Return _ w2 \<Rightarrow> Return () (s(this := other_copy), w2)
           | Throw w2 \<Rightarrow> Throw (s(this := other_copy), w2)
           | Undefined \<Rightarrow> Undefined)
      | Throw w1 \<Rightarrow> Throw (s, w1)
      | Undefined \<Rightarrow> Undefined)"
  by (simp add: copy_assign_def Capacity_def Capacity_raw_def cong: outcome.case_cong)

lemma copy_assign_reuse:
  "this \<noteq> other \<Longrightarrow> size_m (s other) \<le> capacity_m (data_m (s this)) \<Longrightarrow>
   copy_assign tr this other s w =
     (case copy_assign_loop (cells (data_m (s other))) 0
             (min (size_m (s this)) (size_m (s other))) (cells (data_m (s this))) w of
        Return _ (cs1, w1) \<Rightarrow>
          (case (if size_m (s this) \<ge> size_m (s other)
                 then destroy_n (size_m (s other)) (size_m (s this) - size_m (s other)) cs1 w1
                 else uninitialized_copy_n (cells (data_m (s other))) (size_m (s this))
                        (size_m (s other) - size_m (s this)) cs1 (size_m (s this)) w1) of
             Return _ (cs2, w2) \<Rightarrow>
               Return () (s(this := (set_cells (s this) cs2)\<lparr>size_m := size_m (s other)\<rparr>), w2)
           | Throw (cs2, w2) \<Rightarrow> Throw (s(this := set_cells (s this) cs2), w2)
           | Undefined \<Rightarrow> Undefined)
      | Throw (cs1, w1) \<Rightarrow> Throw (s(this := set_cells (s this) cs1), w1)
      | Undefined \<Rightarrow> Undefined)"
  by (simp add: copy_assign_def Capacity_def Capacity_raw_def Let_def)

lemma copy_assign_rebuild_Return:
  assumes ne: "this \<noteq> other" and io: "invariant (s other)"
    and small: "capacity_m (data_m (s this)) < size_m (s other)"
    and run: "copy_assign tr this other s w = Return u (s', w')"
  shows "\<forall>obj. obj \<noteq> this \<longrightarrow> s' obj = s obj"
    and "invariant (s' this)" and "elems (s' this) = elems (s other)"
    and "size_m (s' this) = size_m (s other)"
    and "capacity_m (data_m (s' this)) = size_m (s other)"
    and "buffer_m (data_m (s' this)) = Suc (next_addr w)"
    and "trace w' = trace w @ [Alloc] @ replicate (size_m (s other)) (Ctor Copy)
           @ replicate (size_m (s this)) Dtor
           @ (if buffer_m (data_m (s this)) = 0 then [] else [Dealloc])"
proof -
  from run obtain oc w1 where
    cp: "Vector_copy (s other) w = Return oc w1"
    and ds: "Vector_destroy (s this) w1 = Return () w'"
    and res: "s' = s(this := oc)"
    unfolding copy_assign_rebuild[OF ne small]
    by (fastforce split: outcome.splits prod.splits)
  note c = Vector_copy_Return[OF io cp]
  note d = Vector_destroy_Return[OF ds]
  from small have n0: "size_m (s other) \<noteq> 0" by simp
  from res show "\<forall>obj. obj \<noteq> this \<longrightarrow> s' obj = s obj" by simp
  from res c n0 show "invariant (s' this)" "elems (s' this) = elems (s other)"
    "size_m (s' this) = size_m (s other)" "capacity_m (data_m (s' this)) = size_m (s other)"
    "buffer_m (data_m (s' this)) = Suc (next_addr w)" by simp_all
  from c(6) d(1) n0 show "trace w' = trace w @ [Alloc] @ replicate (size_m (s other)) (Ctor Copy)
           @ replicate (size_m (s this)) Dtor
           @ (if buffer_m (data_m (s this)) = 0 then [] else [Dealloc])" by simp
qed

lemma copy_assign_rebuild_Throw:
  assumes ne: "this \<noteq> other"
    and small: "capacity_m (data_m (s this)) < size_m (s other)"
    and run: "copy_assign tr this other s w = Throw (s', w')"
  shows "s' = s" and "live_objects w' = live_objects w" and "live_blocks w' = live_blocks w"
proof -
  from run have cp: "Vector_copy (s other) w = Throw w'" and res: "s' = s"
    unfolding copy_assign_rebuild[OF ne small]
    by (auto simp: Vector_destroy_no_Throw split: outcome.splits prod.splits)
  from res show "s' = s" .
  from Vector_copy_Throw[OF cp]
  show "live_objects w' = live_objects w" and "live_blocks w' = live_blocks w" by simp_all
qed

lemma copy_assign_reuse_Return:
  assumes ne: "this \<noteq> other" and it: "invariant (s this)" and io: "invariant (s other)"
    and fits: "size_m (s other) \<le> capacity_m (data_m (s this))"
    and run: "copy_assign tr this other s w = Return u (s', w')"
  shows "\<forall>obj. obj \<noteq> this \<longrightarrow> s' obj = s obj"
    and "invariant (s' this)" and "elems (s' this) = elems (s other)"
    and "size_m (s' this) = size_m (s other)"
    and "capacity_m (data_m (s' this)) = capacity_m (data_m (s this))"
    and "buffer_m (data_m (s' this)) = buffer_m (data_m (s this))"
    and "trace w' = trace w @ replicate (min (size_m (s this)) (size_m (s other))) CopyAssign
           @ (if size_m (s other) \<le> size_m (s this)
              then replicate (size_m (s this) - size_m (s other)) Dtor
              else replicate (size_m (s other) - size_m (s this)) (Ctor Copy))"
proof -
  note ct = invariant_cells[OF it] and co = invariant_cells[OF io]
  let ?nt = "size_m (s this)" and ?no = "size_m (s other)"
  let ?xs = "elems (s this)" and ?ys = "elems (s other)"
  let ?c = "capacity_m (data_m (s this))"
  let ?src = "cells (data_m (s other))" and ?dst = "cells (data_m (s this))"
  from run obtain cs1 w1 cs2 where
    lp: "copy_assign_loop ?src 0 (min ?nt ?no) ?dst w = Return () (cs1, w1)"
    and st: "(if ?nt \<ge> ?no then destroy_n ?no (?nt - ?no) cs1 w1
             else uninitialized_copy_n ?src ?nt (?no - ?nt) cs1 ?nt w1) = Return () (cs2, w')"
    and res: "s' = s(this := (set_cells (s this) cs2)\<lparr>size_m := ?no\<rparr>)"
    unfolding copy_assign_reuse[OF ne fits]
    by (fastforce split: outcome.splits prod.splits)
  note l = copy_assign_loop_Return[OF lp]
  have cs1: "cs1 = take (min ?nt ?no) ?src @ drop (min ?nt ?no) ?dst" using l by simp
  have "cs2 = map Obj ?ys @ replicate (?c - ?no) Raw \<and>
        trace w' = trace w @ replicate (min ?nt ?no) CopyAssign
           @ (if ?no \<le> ?nt then replicate (?nt - ?no) Dtor else replicate (?no - ?nt) (Ctor Copy))"
  proof (cases "?no \<le> ?nt")
    case True
    with st have d: "destroy_n ?no (?nt - ?no) cs1 w1 = Return () (cs2, w')" by simp
    note r = destroy_n_Return[OF d]
    from True have m: "min ?nt ?no = ?no" by simp
    have "cs1 = map Obj ?ys @ drop ?no (map Obj ?xs) @ replicate (?c - ?nt) Raw"
      using cs1 m ct(1,2) co(1,2) True by simp
    then have "cs2 = map Obj ?ys @ replicate (?nt - ?no) Raw @ replicate (?c - ?nt) Raw"
      using r co(2) ct(2) True by simp
    moreover have "?nt - ?no + (?c - ?nt) = ?c - ?no" using True ct(3) by simp
    ultimately have "cs2 = map Obj ?ys @ replicate (?c - ?no) Raw"
      by (simp add: replicate_add[symmetric])
    with r l True show ?thesis by simp
  next
    case False
    with st have u: "uninitialized_copy_n ?src ?nt (?no - ?nt) cs1 ?nt w1 = Return () (cs2, w')"
      by simp
    note r = ucopy_Return[OF u]
    from False have m: "min ?nt ?no = ?nt" by simp
    have c1: "cs1 = map Obj (take ?nt ?ys) @ replicate (?c - ?nt) Raw"
      using cs1 m ct(1,2) co(1,2) False by (simp add: take_map)
    have "take (?no - ?nt) (drop ?nt ?src) = map Obj (drop ?nt ?ys)"
      using co(1,2) False by (simp add: drop_map)
    moreover have "take ?nt cs1 = map Obj (take ?nt ?ys)"
      using c1 co(2) False by simp
    moreover have "drop (?nt + (?no - ?nt)) cs1 = replicate (?c - ?no) Raw"
      using c1 co(2) False by simp
    ultimately have "cs2 = map Obj (take ?nt ?ys) @ map Obj (drop ?nt ?ys) @ replicate (?c - ?no) Raw"
      using r by simp
    then have "cs2 = map Obj ?ys @ replicate (?c - ?no) Raw"
      by (simp add: map_append[symmetric] del: map_append)
    with r l False show ?thesis by simp
  qed
  then have cs2: "cs2 = map Obj ?ys @ replicate (?c - ?no) Raw"
    and tr: "trace w' = trace w @ replicate (min ?nt ?no) CopyAssign
           @ (if ?no \<le> ?nt then replicate (?nt - ?no) Dtor else replicate (?no - ?nt) (Ctor Copy))"
    by simp_all
  have "invariant (s' this) \<and> elems (s' this) = ?ys"
    using res cs2 co(2) fits
    by (intro invariantI[where r = "?c - ?no"]) (auto simp: set_cells_def)
  then show "invariant (s' this)" and "elems (s' this) = elems (s other)" by simp_all
  from res show "\<forall>obj. obj \<noteq> this \<longrightarrow> s' obj = s obj" by simp
  from res show "size_m (s' this) = size_m (s other)"
    "capacity_m (data_m (s' this)) = capacity_m (data_m (s this))"
    "buffer_m (data_m (s' this)) = buffer_m (data_m (s this))"
    by (simp_all add: set_cells_def)
  from tr show "trace w' = trace w @ replicate (min (size_m (s this)) (size_m (s other))) CopyAssign
           @ (if size_m (s other) \<le> size_m (s this)
              then replicate (size_m (s this) - size_m (s other)) Dtor
              else replicate (size_m (s other) - size_m (s this)) (Ctor Copy))" .
qed

lemma copy_assign_reuse_Throw:
  assumes ne: "this \<noteq> other"
    and fits: "size_m (s other) \<le> capacity_m (data_m (s this))"
    and run: "copy_assign tr this other s w = Throw (s', w')"
  shows "\<forall>obj. obj \<noteq> this \<longrightarrow> s' obj = s obj"
    and "size_m (s' this) = size_m (s this)"
    and "capacity_m (data_m (s' this)) = capacity_m (data_m (s this))"
    and "buffer_m (data_m (s' this)) = buffer_m (data_m (s this))"
proof -
  from run obtain cs where res: "s' = s(this := set_cells (s this) cs)"
    unfolding copy_assign_reuse[OF ne fits]
    by (fastforce split: outcome.splits prod.splits if_splits)
  from res show "\<forall>obj. obj \<noteq> this \<longrightarrow> s' obj = s obj"
    and "size_m (s' this) = size_m (s this)"
    and "capacity_m (data_m (s' this)) = capacity_m (data_m (s this))"
    and "buffer_m (data_m (s' this)) = buffer_m (data_m (s this))"
    by (simp_all add: set_cells_def)
qed


lemma copy_assign_quiet:
  assumes q: "faults w = []" and ne: "this \<noteq> other"
    and it: "invariant (s this)" and io: "invariant (s other)"
  shows "\<exists>s' w'. copy_assign tr this other s w = Return () (s', w')"
proof (cases "capacity_m (data_m (s this)) < size_m (s other)")
  case True
  from Vector_copy_quiet[OF q io] obtain oc w1 where
    cp: "Vector_copy (s other) w = Return oc w1" and q1: "faults w1 = []" by blast
  from Vector_destroy_quiet[OF q1 it] obtain w2 where
    "Vector_destroy (s this) w1 = Return () w2" by blast
  with cp show ?thesis unfolding copy_assign_rebuild[OF ne True] by simp
next
  case False
  then have fits: "size_m (s other) \<le> capacity_m (data_m (s this))" by simp
  note ct = invariant_cells[OF it] and co = invariant_cells[OF io]
  let ?nt = "size_m (s this)" and ?no = "size_m (s other)"
  let ?c = "capacity_m (data_m (s this))"
  let ?src = "cells (data_m (s other))" and ?dst = "cells (data_m (s this))"
  have ls: "length ?src = capacity_m (data_m (s other))" "length ?dst = ?c"
    using it io by (simp_all add: invariant_def)
  have live_s: "\<And>j. j < ?no \<Longrightarrow> ?src ! j \<noteq> Raw"
    using co by (simp add: nth_append)
  have live_d: "\<And>j. j < ?nt \<Longrightarrow> ?dst ! j \<noteq> Raw"
    using ct by (simp add: nth_append)
  have "\<exists>dst' w'. copy_assign_loop ?src 0 (min ?nt ?no) ?dst w = Return () (dst', w')
          \<and> faults w' = []"
    using ls co(3) ct(3) live_s live_d by (intro copy_assign_loop_quiet[OF q]) auto
  then obtain cs1 w1 where
    lp: "copy_assign_loop ?src 0 (min ?nt ?no) ?dst w = Return () (cs1, w1)"
    and q1: "faults w1 = []" by blast
  note l = copy_assign_loop_Return[OF lp]
  have cs1: "cs1 = take (min ?nt ?no) ?src @ drop (min ?nt ?no) ?dst" using l by simp
  have len1: "length cs1 = ?c" using cs1 ls co(3) ct(3) by auto
  have "\<exists>cs2 w2. (if ?nt \<ge> ?no then destroy_n ?no (?nt - ?no) cs1 w1
             else uninitialized_copy_n ?src ?nt (?no - ?nt) cs1 ?nt w1) = Return () (cs2, w2)"
  proof (cases "?no \<le> ?nt")
    case True
    have "\<forall>j. ?no \<le> j \<and> j < ?no + (?nt - ?no) \<longrightarrow> cs1 ! j \<noteq> Raw"
    proof (intro allI impI)
      fix j assume j: "?no \<le> j \<and> j < ?no + (?nt - ?no)"
      with True have jn: "j < ?nt" by simp
      have "length (take ?no ?src) = ?no" using ls co(3) by simp
      then have "cs1 ! j = drop ?no ?dst ! (j - ?no)"
        using cs1 True j by (simp add: nth_append min_absorb2)
      also have "\<dots> = ?dst ! (?no + (j - ?no))"
        using ls ct(3) True by (intro nth_drop) simp
      also have "\<dots> = ?dst ! j" using j by simp
      finally show "cs1 ! j \<noteq> Raw" using live_d[OF jn] by simp
    qed
    from destroy_n_quiet[OF q1 _ this] len1 ct(3) True show ?thesis by auto
  next
    case False
    have "\<forall>j. ?nt \<le> j \<and> j < ?nt + (?no - ?nt) \<longrightarrow> ?src ! j \<noteq> Raw"
      using live_s by auto
    from ucopy_quiet[OF q1 _ _ this, where dst = cs1 and t = ?nt] len1 ls co(3) fits False
    show ?thesis by auto
  qed
  then obtain cs2 w2 where
    "(if ?nt \<ge> ?no then destroy_n ?no (?nt - ?no) cs1 w1
      else uninitialized_copy_n ?src ?nt (?no - ?nt) cs1 ?nt w1) = Return () (cs2, w2)" by blast
  with lp show ?thesis unfolding copy_assign_reuse[OF ne fits] by simp
qed

lemma pair_store_apply [simp]: "pair_store a b 0 = a" "pair_store a b (Suc 0) = b"
  by (simp_all add: pair_store_def)

subsection \<open>Shifting, insertion and removal\<close>

text \<open>
  What \<^verbatim>\<open>Erase\<close>, \<^verbatim>\<open>Emplace\<close>, \<^verbatim>\<open>PopBack\<close> and \<^verbatim>\<open>Resize\<close> leave behind when they return,
  and when they do return.
\<close>

lemma move_assign_at_Return:
  assumes "move_assign_at tr s d cs w = Return u (cs', w')"
  shows "\<exists>x. cs ! s = Obj x \<and> cs' = (cs[s := Obj (moved_from tr x)])[d := Obj x]"
    and "s < length cs" and "d < length cs" and "cs ! d \<noteq> Raw"
    and "trace w' = trace w @ [MoveAssign]" and "next_addr w' = next_addr w"
  using assms
  by (auto simp: move_assign_at_def split: sum.splits if_splits slot.splits dest: attempt_Inr)

lemma move_assign_at_quiet:
  "faults w = [] \<Longrightarrow> s < length cs \<Longrightarrow> d < length cs \<Longrightarrow> cs ! s = Obj x \<Longrightarrow> cs ! d \<noteq> Raw \<Longrightarrow>
   move_assign_at tr s d cs w
     = Return () ((cs[s := Obj (moved_from tr x)])[d := Obj x], emit MoveAssign w)"
  by (cases "cs ! d") (simp_all add: move_assign_at_def attempt_quiet)

lemma move_backward_shift:
  "cs = A @ map Obj ys @ Obj z # B \<Longrightarrow>
   move_backward_from tr (length A + length ys) (length ys) (Suc (length A + length ys)) cs w
     = Return u (cs', w') \<Longrightarrow>
   cs' = (if ys = [] then cs else A @ Obj (moved_from tr (hd ys)) # map Obj ys @ B) \<and>
   trace w' = trace w @ replicate (length ys) MoveAssign \<and> next_addr w' = next_addr w"
proof (induction ys arbitrary: z B cs w rule: rev_induct)
  case Nil
  then show ?case by simp
next
  case (snoc y ys)
  let ?l = "length A + length ys"
  from snoc.prems(2) obtain cs1 w1 where
    st: "move_assign_at tr ?l (Suc ?l) cs w = Return () (cs1, w1)"
    and rec: "move_backward_from tr ?l (length ys) (Suc ?l) cs1 w1 = Return u (cs', w')"
    by (auto split: outcome.splits prod.splits if_splits)
  note m = move_assign_at_Return[OF st]
  have at_l: "cs ! ?l = Obj y" using snoc.prems(1) by (simp add: nth_append)
  have cs1: "cs1 = A @ map Obj ys @ Obj (moved_from tr y) # (Obj y # B)"
    using m(1) at_l snoc.prems(1) by (simp add: list_update_append)
  from snoc.IH[OF cs1 rec] m(5,6)
  have r: "cs' = (if ys = [] then cs1 else A @ Obj (moved_from tr (hd ys)) # map Obj ys @ Obj y # B)"
    "trace w' = trace w @ replicate (Suc (length ys)) MoveAssign" "next_addr w' = next_addr w"
    by (simp_all add: replicate_append_same)
  from r cs1 show ?case by (cases ys) auto
qed

lemma move_backward_quiet:
  "cs = A @ map Obj ys @ Obj z # B \<Longrightarrow> faults w = [] \<Longrightarrow>
   \<exists>cs' w'. move_backward_from tr (length A + length ys) (length ys)
               (Suc (length A + length ys)) cs w = Return () (cs', w') \<and> faults w' = []"
proof (induction ys arbitrary: z B cs w rule: rev_induct)
  case Nil
  then show ?case by simp
next
  case (snoc y ys)
  let ?l = "length A + length ys"
  have at_l: "cs ! ?l = Obj y" "cs ! Suc ?l = Obj z" "Suc ?l < length cs"
    using snoc.prems(1) by (simp_all add: nth_append)
  have st: "move_assign_at tr ?l (Suc ?l) cs w
      = Return () ((cs[?l := Obj (moved_from tr y)])[Suc ?l := Obj y], emit MoveAssign w)"
    using at_l snoc.prems(2) by (intro move_assign_at_quiet) auto
  have cs1: "(cs[?l := Obj (moved_from tr y)])[Suc ?l := Obj y]
       = A @ map Obj ys @ Obj (moved_from tr y) # (Obj y # B)"
    using snoc.prems(1) by (simp add: list_update_append)
  from snoc.IH[OF cs1, of "emit MoveAssign w"] snoc.prems(2) st
  show ?case by auto
qed

lemma move_forward_shift:
  "cs = A @ Obj z # map Obj ys @ B \<Longrightarrow>
   move_forward tr (Suc (length A)) (length ys) (length A) cs w = Return u (cs', w') \<Longrightarrow>
   cs' = (if ys = [] then cs else A @ map Obj ys @ Obj (moved_from tr (last ys)) # B) \<and>
   trace w' = trace w @ replicate (length ys) MoveAssign \<and> next_addr w' = next_addr w"
proof (induction ys arbitrary: A z cs w)
  case Nil
  then show ?case by simp
next
  case (Cons y ys)
  let ?l = "length A"
  from Cons.prems(2) obtain cs1 w1 where
    st: "move_assign_at tr (Suc ?l) ?l cs w = Return () (cs1, w1)"
    and rec: "move_forward tr (Suc (Suc ?l)) (length ys) (Suc ?l) cs1 w1 = Return u (cs', w')"
    by (auto split: outcome.splits prod.splits)
  note m = move_assign_at_Return[OF st]
  have at_l: "cs ! Suc ?l = Obj y" using Cons.prems(1) by (simp add: nth_append)
  have cs1: "cs1 = (A @ [Obj y]) @ Obj (moved_from tr y) # map Obj ys @ B"
    using m(1) at_l Cons.prems(1) by (simp add: list_update_append)
  from Cons.IH[OF cs1] rec m(5,6)
  have r: "cs' = (if ys = [] then cs1
                  else (A @ [Obj y]) @ map Obj ys @ Obj (moved_from tr (last ys)) # B)"
    "trace w' = trace w @ replicate (Suc (length ys)) MoveAssign" "next_addr w' = next_addr w"
    by (simp_all add: replicate_append_same)
  from r cs1 show ?case by auto
qed

lemma move_forward_quiet:
  "cs = A @ Obj z # map Obj ys @ B \<Longrightarrow> faults w = [] \<Longrightarrow>
   \<exists>cs' w'. move_forward tr (Suc (length A)) (length ys) (length A) cs w = Return () (cs', w')
      \<and> faults w' = []"
proof (induction ys arbitrary: A z cs w)
  case Nil
  then show ?case by simp
next
  case (Cons y ys)
  let ?l = "length A"
  have at_l: "cs ! Suc ?l = Obj y" "cs ! ?l = Obj z" "Suc ?l < length cs"
    using Cons.prems(1) by (simp_all add: nth_append)
  have st: "move_assign_at tr (Suc ?l) ?l cs w
      = Return () ((cs[Suc ?l := Obj (moved_from tr y)])[?l := Obj y], emit MoveAssign w)"
    using at_l Cons.prems(2) by (intro move_assign_at_quiet) auto
  have cs1: "(cs[Suc ?l := Obj (moved_from tr y)])[?l := Obj y]
       = (A @ [Obj y]) @ Obj (moved_from tr y) # map Obj ys @ B"
    using Cons.prems(1) by (simp add: list_update_append)
  from Cons.IH[OF cs1, of "emit MoveAssign w"] Cons.prems(2) st
  show ?case by auto
qed


lemma move_construct_at_Return:
  assumes "move_construct_at tr s d cs w = Return u (cs', w')"
  shows "\<exists>x. cs ! s = Obj x \<and> cs' = (cs[s := Obj (moved_from tr x)])[d := Obj x]"
    and "s < length cs" and "d < length cs"
    and "trace w' = trace w @ [Ctor Move]" and "next_addr w' = next_addr w"
  using assms
  by (auto simp: move_construct_at_def split: sum.splits if_splits slot.splits dest: attempt_Inr)

lemma move_construct_at_quiet:
  "faults w = [] \<Longrightarrow> s < length cs \<Longrightarrow> d < length cs \<Longrightarrow> cs ! s = Obj x \<Longrightarrow>
   move_construct_at tr s d cs w
     = Return () ((cs[s := Obj (moved_from tr x)])[d := Obj x], emit (Ctor Move) w)"
  by (simp add: move_construct_at_def attempt_quiet)

lemma drop_butlast_last:
  "n < length xs \<Longrightarrow> drop n xs = drop n (butlast xs) @ [last xs]"
proof -
  assume n: "n < length xs"
  then have "drop n xs \<noteq> []" by simp
  then have "butlast (drop n xs) @ [last (drop n xs)] = drop n xs"
    by (rule append_butlast_last_id)
  with n show ?thesis by (metis butlast_drop last_drop)
qed

lemma map_Obj_split:
  "i < length xs \<Longrightarrow>
   map Obj xs = map Obj (take i xs) @ Obj (xs ! i) # map Obj (drop (Suc i) xs)"
proof -
  assume "i < length xs"
  then have "xs = take i xs @ xs ! i # drop (Suc i) xs" by (rule id_take_nth_drop)
  then have "map Obj xs = map Obj (take i xs @ xs ! i # drop (Suc i) xs)" by (rule arg_cong)
  then show ?thesis by simp
qed

lemma update_at_length: "length P = i \<Longrightarrow> (P @ y # S)[i := z] = P @ z # S"
  by (simp add: list_update_append)

lemma nth_at_length: "length P = i \<Longrightarrow> (P @ y # S) ! i = y"
  by (simp add: nth_append)

lemma Erase_Return:
  assumes inv: "invariant v" and run: "Erase tr cpos v w = Return it (v', w')"
  shows "invariant v'" and "elems v' = take cpos (elems v) @ drop (Suc cpos) (elems v)"
    and "it = (buffer_m (data_m v'), cpos)" and "Suc (size_m v') = size_m v"
    and "cpos < size_m v"
    and "capacity_m (data_m v') = capacity_m (data_m v)"
    and "buffer_m (data_m v') = buffer_m (data_m v)"
    and "trace w' = trace w @ replicate (size_m v - Suc cpos) MoveAssign @ [Dtor]"
    and "next_addr w' = next_addr w"
proof -
  note c = invariant_cells[OF inv]
  let ?xs = "elems v" and ?n = "size_m v" and ?r = "capacity_m (data_m v) - size_m v"
  from run have pos: "cpos < ?n" by (auto simp: Erase_def split: if_splits)
  let ?A = "map Obj (take cpos ?xs)" and ?ys = "drop (Suc cpos) ?xs"
  let ?B = "replicate ?r (Raw :: 'a slot)"
  from run pos obtain cs1 w1 cs2 where
    mv: "std_move tr (cpos + 1) ?n cpos (cells (data_m v)) w = Return () (cs1, w1)"
    and ds: "destroy_at (?n - 1) cs1 w1 = Return () (cs2, w')"
    and res: "v' = (set_cells v cs2)\<lparr>size_m := ?n - 1\<rparr>" "it = (buffer_m (data_m v), cpos)"
    by (fastforce simp: Erase_def split: outcome.splits prod.splits)
  have lenA: "length ?A = cpos" and lenys: "length ?ys = ?n - Suc cpos"
    using pos c(2) by simp_all
  have cells: "cells (data_m v) = ?A @ Obj (?xs ! cpos) # map Obj ?ys @ ?B"
    using c(1,2) pos map_Obj_split[of cpos ?xs] by simp
  have mf: "move_forward tr (Suc (length ?A)) (length ?ys) (length ?A)
      (cells (data_m v)) w = Return () (cs1, w1)"
    unfolding lenA lenys using mv pos by (simp add: std_move_def)
  note s = move_forward_shift[OF cells mf]
  note d = destroy_at_Return[OF ds]
  have plen: "length (?A @ map Obj ?ys) = ?n - 1" using pos c(2) by simp
  have "\<exists>y. cs1 = (?A @ map Obj ?ys) @ y # ?B"
  proof (cases "?ys = []")
    case True
    with s cells show ?thesis by simp
  next
    case False
    with s show ?thesis by simp
  qed
  then obtain y where "cs1 = (?A @ map Obj ?ys) @ y # ?B" by blast
  with d(1) update_at_length[OF plen] have "cs2 = (?A @ map Obj ?ys) @ Raw # ?B" by simp
  then have cs2: "cs2 = map Obj (take cpos ?xs @ ?ys) @ replicate (Suc ?r) Raw" by simp
  have "invariant v' \<and> elems v' = take cpos ?xs @ ?ys"
    using res(1) cs2 pos c(2,3) lenys
    by (intro invariantI[where r = "Suc ?r"]) (auto simp: set_cells_def)
  then show "invariant v'" and "elems v' = take cpos (elems v) @ drop (Suc cpos) (elems v)"
    by simp_all
  from res pos show "it = (buffer_m (data_m v'), cpos)" "Suc (size_m v') = size_m v"
    "capacity_m (data_m v') = capacity_m (data_m v)"
    "buffer_m (data_m v') = buffer_m (data_m v)" by (simp_all add: set_cells_def)
  from pos show "cpos < size_m v" .
  from s d lenys show "trace w' = trace w @ replicate (size_m v - Suc cpos) MoveAssign @ [Dtor]"
    "next_addr w' = next_addr w" by simp_all
qed

lemma Erase_quiet:
  assumes q: "faults w = []" and inv: "invariant v" and pos: "cpos < size_m v"
  shows "\<exists>it v' w'. Erase tr cpos v w = Return it (v', w') \<and> faults w' = []"
proof -
  note c = invariant_cells[OF inv]
  let ?xs = "elems v" and ?n = "size_m v" and ?r = "capacity_m (data_m v) - size_m v"
  let ?A = "map Obj (take cpos ?xs)" and ?ys = "drop (Suc cpos) ?xs"
  let ?B = "replicate ?r (Raw :: 'a slot)"
  have lenA: "length ?A = cpos" and lenys: "length ?ys = ?n - Suc cpos"
    using pos c(2) by simp_all
  have cells: "cells (data_m v) = ?A @ Obj (?xs ! cpos) # map Obj ?ys @ ?B"
    using c(1,2) pos map_Obj_split[of cpos ?xs] by simp
  from move_forward_quiet[OF cells q, of tr] obtain cs1 w1 where
    mf: "move_forward tr (Suc (length ?A)) (length ?ys) (length ?A) (cells (data_m v)) w
           = Return () (cs1, w1)" and q1: "faults w1 = []" by blast
  have mv: "std_move tr (cpos + 1) ?n cpos (cells (data_m v)) w = Return () (cs1, w1)"
    using mf[unfolded lenA lenys] pos by (simp add: std_move_def)
  note s = move_forward_shift[OF cells mf]
  have plen: "length (?A @ map Obj ?ys) = ?n - 1" using pos c(2) by simp
  have "\<exists>y. y \<noteq> Raw \<and> cs1 = (?A @ map Obj ?ys) @ y # ?B"
  proof (cases "?ys = []")
    case True
    with s cells show ?thesis by simp
  next
    case False
    with s show ?thesis by simp
  qed
  then obtain y where y: "y \<noteq> Raw" "cs1 = (?A @ map Obj ?ys) @ y # ?B" by blast
  have "cs1 ! (?n - 1) = y" unfolding y(2) using plen by (rule nth_at_length)
  moreover have "?n - 1 < length cs1" unfolding y(2) using plen by simp
  ultimately have "?n - 1 < length cs1 \<and> cs1 ! (?n - 1) \<noteq> Raw" using y(1) by simp
  then have "destroy_at (?n - 1) cs1 w1 = Return () (cs1[?n - 1 := Raw], emit Dtor w1)"
    by (simp add: destroy_at_def)
  with mv pos q1 show ?thesis by (simp add: Erase_def)
qed


lemma Emplace_inplace:
  "cpos \<le> size_m v \<Longrightarrow> size_m v \<noteq> capacity_m (data_m v) \<Longrightarrow> size_m v \<noteq> 0 \<Longrightarrow>
   Emplace tr k cpos x v w =
     (case attempt (may_throw tr k) (Ctor k) w of
        Inl w1 \<Rightarrow> Throw (v, w1)
      | Inr w1 \<Rightarrow>
         (case move_construct_at tr (size_m v - 1) (size_m v) (cells (data_m v)) w1 of
            Return _ (cs2, w2) \<Rightarrow>
              (case std_move_backward tr cpos (size_m v - 1) (size_m v) cs2 w2 of
                 Return _ (cs3, w3) \<Rightarrow>
                   (case assign_at MoveAssign cpos x cs3 w3 of
                      Return _ (cs4, w4) \<Rightarrow>
                        Return (buffer_m (data_m v), cpos)
                          ((set_cells v cs4)\<lparr>size_m := size_m v + 1\<rparr>, emit Dtor w4)
                    | Throw (cs4, w4) \<Rightarrow> Throw (set_cells v cs4, emit Dtor w4)
                    | Undefined \<Rightarrow> Undefined)
               | Throw (cs3, w3) \<Rightarrow>
                   (case destroy_at (size_m v) cs3 w3 of
                      Return _ (cs4, w4) \<Rightarrow> Throw (set_cells v cs4, emit Dtor w4)
                    | Throw (cs4, w4) \<Rightarrow> Throw (set_cells v cs4, emit Dtor w4)
                    | Undefined \<Rightarrow> Undefined)
               | Undefined \<Rightarrow> Undefined)
          | Throw (cs2, w2) \<Rightarrow> Throw (set_cells v cs2, emit Dtor w2)
          | Undefined \<Rightarrow> Undefined))"
  by (simp add: Emplace_def Capacity_raw_def)

lemma Emplace_empty:
  "size_m v \<noteq> capacity_m (data_m v) \<Longrightarrow> size_m v = 0 \<Longrightarrow>
   Emplace tr k 0 x v w =
     (case construct_at tr k 0 x (cells (data_m v)) w of
        Return _ (cs, w1) \<Rightarrow>
          Return (buffer_m (data_m v), 0) ((set_cells v cs)\<lparr>size_m := size_m v + 1\<rparr>, w1)
      | Throw (cs, w1) \<Rightarrow> Throw (set_cells v cs, w1)
      | Undefined \<Rightarrow> Undefined)"
  by (simp add: Emplace_def Capacity_raw_def)

lemma Emplace_at_end_inplace_no_Return:
  assumes "size_m v \<noteq> capacity_m (data_m v)" "size_m v \<noteq> 0"
  shows "Emplace tr k (size_m v) x v w \<noteq> Return it s"
  unfolding Emplace_inplace[OF order_refl assms]
  using assms(2)
  by (auto simp: std_move_backward_def split: sum.splits outcome.splits prod.splits)

lemma Emplace_at_end_inplace_Undefined:
  assumes inv: "invariant v" and spare: "size_m v \<noteq> capacity_m (data_m v)"
    and ne: "size_m v \<noteq> 0" and q: "faults w = []"
  shows "Emplace tr k (size_m v) x v w = Undefined"
proof -
  note c = invariant_cells[OF inv]
  let ?n = "size_m v" and ?cs = "cells (data_m v)"
  from ne c(2) have xs: "elems v \<noteq> []" by auto
  have len: "?n < length ?cs" using c spare by simp
  have last: "?cs ! (?n - 1) = Obj (last (elems v))"
    using c(1,2) ne xs by (simp add: nth_append last_conv_nth)
  have mc: "move_construct_at tr (?n - 1) ?n ?cs (emit (Ctor k) w)
      = Return () ((?cs[?n - 1 := Obj (moved_from tr (last (elems v)))])[?n := Obj (last (elems v))],
                   emit (Ctor Move) (emit (Ctor k) w))"
    using len last q by (intro move_construct_at_quiet) auto
  have smb: "std_move_backward tr ?n (?n - 1) ?n cs2 w2 = Undefined" for cs2 w2
    using ne by (simp add: std_move_backward_def)
  show ?thesis
    unfolding Emplace_inplace[OF order_refl spare ne]
    by (simp only: attempt_quiet[OF q] sum.case mc outcome.case prod.case smb)
qed

lemma Emplace_empty_Return:
  assumes inv: "invariant v" and spare: "size_m v \<noteq> capacity_m (data_m v)"
    and emp: "size_m v = 0" and run: "Emplace tr k 0 x v w = Return it (v', w')"
  shows "invariant v'" and "elems v' = [x]" and "it = (buffer_m (data_m v'), 0)"
    and "size_m v' = 1" and "capacity_m (data_m v') = capacity_m (data_m v)"
    and "buffer_m (data_m v') = buffer_m (data_m v)"
    and "trace w' = trace w @ [Ctor k]"
proof -
  note c = invariant_cells[OF inv]
  let ?r = "capacity_m (data_m v)"
  from run obtain cs where
    con: "construct_at tr k 0 x (cells (data_m v)) w = Return () (cs, w')"
    and res: "v' = (set_cells v cs)\<lparr>size_m := size_m v + 1\<rparr>" "it = (buffer_m (data_m v), 0)"
    unfolding Emplace_empty[OF spare emp]
    by (fastforce split: outcome.splits prod.splits)
  note k = construct_at_Return[OF con]
  from spare emp have r: "0 < ?r" by simp
  from c emp have "cells (data_m v) = replicate ?r Raw" by simp
  with k(1) r have cs: "cs = map Obj [x] @ replicate (?r - 1) Raw"
    by (simp add: replicate_update0)
  have "invariant v' \<and> elems v' = [x]"
    using res(1) cs r emp by (intro invariantI[where r = "?r - 1"]) (auto simp: set_cells_def)
  then show "invariant v'" and "elems v' = [x]" by simp_all
  from res emp show "it = (buffer_m (data_m v'), 0)" "size_m v' = 1"
    "capacity_m (data_m v') = capacity_m (data_m v)"
    "buffer_m (data_m v') = buffer_m (data_m v)" by (simp_all add: set_cells_def)
  from k(3) show "trace w' = trace w @ [Ctor k]" .
qed

lemma Emplace_inplace_Return:
  assumes inv: "invariant v" and spare: "size_m v \<noteq> capacity_m (data_m v)"
    and pos: "cpos < size_m v" and run: "Emplace tr k cpos x v w = Return it (v', w')"
  shows "invariant v'" and "elems v' = take cpos (elems v) @ x # drop cpos (elems v)"
    and "it = (buffer_m (data_m v'), cpos)" and "size_m v' = Suc (size_m v)"
    and "capacity_m (data_m v') = capacity_m (data_m v)"
    and "buffer_m (data_m v') = buffer_m (data_m v)"
    and "trace w' = trace w @ [Ctor k, Ctor Move]
           @ replicate (size_m v - Suc cpos) MoveAssign @ [MoveAssign, Dtor]"
proof -
  note c = invariant_cells[OF inv]
  let ?xs = "elems v" and ?n = "size_m v" and ?r = "capacity_m (data_m v) - size_m v"
  let ?A = "map Obj (take cpos ?xs)" and ?ys = "drop cpos (butlast ?xs)"
  let ?z = "last ?xs"
  from pos have ne: "?n \<noteq> 0" and le: "cpos \<le> ?n" by simp_all
  from spare c(3) have r: "0 < ?r" by simp
  from run obtain w1 cs2 w2 cs3 w3 cs4 w4 where
    att: "attempt (may_throw tr k) (Ctor k) w = Inr w1"
    and mc: "move_construct_at tr (?n - 1) ?n (cells (data_m v)) w1 = Return () (cs2, w2)"
    and mb: "std_move_backward tr cpos (?n - 1) ?n cs2 w2 = Return () (cs3, w3)"
    and asg: "assign_at MoveAssign cpos x cs3 w3 = Return () (cs4, w4)"
    and res: "v' = (set_cells v cs4)\<lparr>size_m := ?n + 1\<rparr>" "w' = emit Dtor w4"
             "it = (buffer_m (data_m v), cpos)"
    unfolding Emplace_inplace[OF le spare ne]
    by (fastforce split: sum.splits outcome.splits prod.splits)
  have lenA: "length ?A = cpos" and lenys: "length ?ys = ?n - Suc cpos"
    using pos c(2) by simp_all
  have plen: "length (?A @ map Obj ?ys) = ?n - 1" using pos c(2) by simp
  have dec: "drop cpos ?xs = ?ys @ [?z]" using pos c(2) by (intro drop_butlast_last) simp
  have "map Obj ?xs = map Obj (take cpos ?xs @ drop cpos ?xs)" by simp
  also have "\<dots> = (?A @ map Obj ?ys) @ [Obj ?z]" unfolding dec by simp
  finally have cells: "cells (data_m v) = (?A @ map Obj ?ys) @ Obj ?z # Raw # replicate (?r - 1) Raw"
    using c(1) r by (cases ?r) simp_all
  note m = move_construct_at_Return[OF mc]
  have src: "cells (data_m v) ! (?n - 1) = Obj ?z"
    unfolding cells using plen by (rule nth_at_length)
  have "(cells (data_m v))[?n - 1 := Obj (moved_from tr ?z)]
          = (?A @ map Obj ?ys) @ Obj (moved_from tr ?z) # Raw # replicate (?r - 1) Raw"
    unfolding cells using plen by (rule update_at_length)
  also have "\<dots> = (?A @ map Obj ?ys @ [Obj (moved_from tr ?z)]) @ Raw # replicate (?r - 1) Raw"
    by simp
  finally have "cs2 = ((?A @ map Obj ?ys @ [Obj (moved_from tr ?z)]) @ Raw # replicate (?r - 1) Raw)
                        [?n := Obj ?z]"
    using m(1) src by simp
  moreover have "length (?A @ map Obj ?ys @ [Obj (moved_from tr ?z)]) = ?n"
    using pos c(2) by simp
  ultimately have "cs2 = (?A @ map Obj ?ys @ [Obj (moved_from tr ?z)]) @ Obj ?z # replicate (?r - 1) Raw"
    by (simp only: update_at_length)
  then have cs2: "cs2 = ?A @ map Obj ?ys @ Obj (moved_from tr ?z) # (Obj ?z # replicate (?r - 1) Raw)"
    by simp
  have mbf: "move_backward_from tr (length ?A + length ?ys) (length ?ys)
               (Suc (length ?A + length ?ys)) cs2 w2 = Return () (cs3, w3)"
    unfolding lenA lenys using mb pos by (simp add: std_move_backward_def split: if_splits)
  note b = move_backward_shift[OF cs2 mbf]
  note a = assign_at_Return[OF asg]
  have "\<exists>y. cs3 = ?A @ y # map Obj ?ys @ Obj ?z # replicate (?r - 1) Raw"
  proof (cases "?ys = []")
    case True
    with b cs2 show ?thesis by simp
  next
    case False
    with b show ?thesis by simp
  qed
  then obtain y where "cs3 = ?A @ y # map Obj ?ys @ Obj ?z # replicate (?r - 1) Raw" by blast
  with a(1) update_at_length[OF lenA]
  have "cs4 = ?A @ Obj x # map Obj ?ys @ Obj ?z # replicate (?r - 1) Raw" by simp
  then have cs4: "cs4 = map Obj (take cpos ?xs @ x # drop cpos ?xs) @ replicate (?r - 1) Raw"
    unfolding dec by simp
  have "invariant v' \<and> elems v' = take cpos ?xs @ x # drop cpos ?xs"
    using res(1) cs4 pos c(2,3) r
    by (intro invariantI[where r = "?r - 1"]) (auto simp: set_cells_def)
  then show "invariant v'" and "elems v' = take cpos (elems v) @ x # drop cpos (elems v)"
    by simp_all
  from res show "it = (buffer_m (data_m v'), cpos)" "size_m v' = Suc (size_m v)"
    "capacity_m (data_m v') = capacity_m (data_m v)"
    "buffer_m (data_m v') = buffer_m (data_m v)" by (simp_all add: set_cells_def)
  from res(2) a(4) b m(4) attempt_Inr[OF att] lenys
  show "trace w' = trace w @ [Ctor k, Ctor Move]
           @ replicate (size_m v - Suc cpos) MoveAssign @ [MoveAssign, Dtor]" by simp
qed


lemma at_index_elems:
  assumes "invariant v" and "i < size_m v"
  shows "at_index v i = Some (elems v ! i)"
proof -
  note c = invariant_cells[OF assms(1)]
  from c assms(2) have "cells (data_m v) ! i = Obj (elems v ! i)" by (simp add: nth_append)
  moreover from c assms(2) have "i < length (cells (data_m v))" by simp
  ultimately show ?thesis using assms(2) by (simp add: at_index_def)
qed

lemma Emplace_Return:
  assumes inv: "invariant v" and run: "Emplace tr k cpos x v w = Return it (v', w')"
  shows "invariant v'" and "elems v' = take cpos (elems v) @ x # drop cpos (elems v)"
    and "it = (buffer_m (data_m v'), cpos)" and "size_m v' = Suc (size_m v)"
    and "cpos \<le> size_m v" and "at_index v' cpos = Some x"
    and "cpos = size_m v \<Longrightarrow> size_m v = 0 \<or> size_m v = capacity_m (data_m v)"
proof -
  note c = invariant_cells[OF inv]
  from run have le: "cpos \<le> size_m v" by (auto simp: Emplace_def split: if_splits)
  have main: "invariant v' \<and> elems v' = take cpos (elems v) @ x # drop cpos (elems v) \<and>
      it = (buffer_m (data_m v'), cpos) \<and> size_m v' = Suc (size_m v) \<and>
      (cpos = size_m v \<longrightarrow> size_m v = 0 \<or> size_m v = capacity_m (data_m v))"
  proof (cases "size_m v = capacity_m (data_m v)")
    case True
    from Emplace_realloc_Return[OF inv True le run] True show ?thesis by simp
  next
    case spare: False
    show ?thesis
    proof (cases "size_m v = 0")
      case True
      with le have z: "cpos = 0" by simp
      from Emplace_empty_Return[OF inv spare True run[unfolded z]] c(2) True z
      show ?thesis by simp
    next
      case False
      have "cpos \<noteq> size_m v"
        using Emplace_at_end_inplace_no_Return[OF spare False, of tr k x w it "(v', w')"] run
        by auto
      with le have lt: "cpos < size_m v" by simp
      from Emplace_inplace_Return[OF inv spare lt run] lt show ?thesis by simp
    qed
  qed
  then show "invariant v'" and "elems v' = take cpos (elems v) @ x # drop cpos (elems v)"
    and "it = (buffer_m (data_m v'), cpos)" and "size_m v' = Suc (size_m v)"
    and "cpos = size_m v \<Longrightarrow> size_m v = 0 \<or> size_m v = capacity_m (data_m v)"
    by simp_all
  from le show "cpos \<le> size_m v" .
  from main le c(2) have "cpos < size_m v'" "elems v' ! cpos = x"
    by (simp_all add: nth_append)
  with at_index_elems[of v' cpos] main show "at_index v' cpos = Some x" by simp
qed

lemma Emplace_inplace_quiet:
  assumes q: "faults w = []" and inv: "invariant v"
    and spare: "size_m v \<noteq> capacity_m (data_m v)" and pos: "cpos < size_m v"
  shows "\<exists>it v' w'. Emplace tr k cpos x v w = Return it (v', w') \<and> faults w' = []"
proof -
  note c = invariant_cells[OF inv]
  let ?xs = "elems v" and ?n = "size_m v" and ?r = "capacity_m (data_m v) - size_m v"
  let ?A = "map Obj (take cpos ?xs)" and ?ys = "drop cpos (butlast ?xs)"
  let ?z = "last ?xs" and ?cs = "cells (data_m v)"
  from pos have ne: "?n \<noteq> 0" and le: "cpos \<le> ?n" by simp_all
  from spare c(3) have r: "0 < ?r" by simp
  have lenA: "length ?A = cpos" and lenys: "length ?ys = ?n - Suc cpos"
    using pos c(2) by simp_all
  have plen: "length (?A @ map Obj ?ys) = ?n - 1" using pos c(2) by simp
  have dec: "drop cpos ?xs = ?ys @ [?z]" using pos c(2) by (intro drop_butlast_last) simp
  have "map Obj ?xs = map Obj (take cpos ?xs @ drop cpos ?xs)" by simp
  also have "\<dots> = (?A @ map Obj ?ys) @ [Obj ?z]" unfolding dec by simp
  finally have cells: "?cs = (?A @ map Obj ?ys) @ Obj ?z # Raw # replicate (?r - 1) Raw"
    using c(1) r by (cases ?r) simp_all
  have src: "?cs ! (?n - 1) = Obj ?z" unfolding cells using plen by (rule nth_at_length)
  have len: "?n < length ?cs" "?n - 1 < length ?cs" using c r by simp_all
  let ?w1 = "emit (Ctor k) w"
  have q1: "faults ?w1 = []" using q by simp
  have mc: "move_construct_at tr (?n - 1) ?n ?cs ?w1
      = Return () ((?cs[?n - 1 := Obj (moved_from tr ?z)])[?n := Obj ?z], emit (Ctor Move) ?w1)"
    using q1 len src by (intro move_construct_at_quiet)
  let ?cs2 = "(?cs[?n - 1 := Obj (moved_from tr ?z)])[?n := Obj ?z]"
  let ?w2 = "emit (Ctor Move) ?w1"
  have "?cs[?n - 1 := Obj (moved_from tr ?z)]
          = (?A @ map Obj ?ys) @ Obj (moved_from tr ?z) # Raw # replicate (?r - 1) Raw"
    unfolding cells using plen by (rule update_at_length)
  also have "\<dots> = (?A @ map Obj ?ys @ [Obj (moved_from tr ?z)]) @ Raw # replicate (?r - 1) Raw"
    by simp
  finally have "?cs2 = ((?A @ map Obj ?ys @ [Obj (moved_from tr ?z)]) @ Raw # replicate (?r - 1) Raw)
                        [?n := Obj ?z]" by simp
  moreover have "length (?A @ map Obj ?ys @ [Obj (moved_from tr ?z)]) = ?n"
    using pos c(2) by simp
  ultimately have "?cs2 = (?A @ map Obj ?ys @ [Obj (moved_from tr ?z)]) @ Obj ?z # replicate (?r - 1) Raw"
    by (simp only: update_at_length)
  then have cs2: "?cs2 = ?A @ map Obj ?ys @ Obj (moved_from tr ?z) # (Obj ?z # replicate (?r - 1) Raw)"
    by simp
  have q2: "faults ?w2 = []" using q by simp
  from move_backward_quiet[OF cs2 q2, of tr] obtain cs3 w3 where
    mbf: "move_backward_from tr (length ?A + length ?ys) (length ?ys)
               (Suc (length ?A + length ?ys)) ?cs2 ?w2 = Return () (cs3, w3)"
    and q3: "faults w3 = []" by blast
  have mb: "std_move_backward tr cpos (?n - 1) ?n ?cs2 ?w2 = Return () (cs3, w3)"
    using mbf[unfolded lenA lenys] pos by (simp add: std_move_backward_def)
  note b = move_backward_shift[OF cs2 mbf]
  have "\<exists>y. y \<noteq> Raw \<and> cs3 = ?A @ y # map Obj ?ys @ Obj ?z # replicate (?r - 1) Raw"
  proof (cases "?ys = []")
    case True
    with b cs2 show ?thesis by simp
  next
    case False
    with b show ?thesis by simp
  qed
  then obtain y where y: "y \<noteq> Raw"
    "cs3 = ?A @ y # map Obj ?ys @ Obj ?z # replicate (?r - 1) Raw" by blast
  have "cs3 ! cpos = y" unfolding y(2) using lenA by (rule nth_at_length)
  moreover have "cpos < length cs3" unfolding y(2) using lenA by simp
  ultimately have asg: "assign_at MoveAssign cpos x cs3 w3
      = Return () (cs3[cpos := Obj x], emit MoveAssign w3)"
    using y(1) q3 by (intro assign_at_quiet) auto
  show ?thesis
    unfolding Emplace_inplace[OF le spare ne]
    using q3 by (simp only: attempt_quiet[OF q] sum.case mc mb asg outcome.case prod.case)
       simp
qed

lemma Emplace_empty_quiet:
  assumes q: "faults w = []" and inv: "invariant v"
    and spare: "size_m v \<noteq> capacity_m (data_m v)" and emp: "size_m v = 0"
  shows "\<exists>it v' w'. Emplace tr k 0 x v w = Return it (v', w') \<and> faults w' = []"
proof -
  note c = invariant_cells[OF inv]
  from c spare emp have "0 < length (cells (data_m v))" by simp
  then show ?thesis
    unfolding Emplace_empty[OF spare emp]
    using q by (simp add: construct_at_def attempt_quiet)
qed

lemma erase_then_insert_restores:
  assumes inv: "invariant v"
    and er: "Erase tr cpos v w = Return it1 (v1, w1)"
    and ins: "Emplace tr k cpos (elems v ! cpos) v1 w1 = Return it2 (v2, w2)"
  shows "elems v2 = elems v" and "size_m v2 = size_m v" and "invariant v2"
    and "capacity_m (data_m v2) = capacity_m (data_m v)"
    and "buffer_m (data_m v2) = buffer_m (data_m v)"
    and "Suc cpos = size_m v \<Longrightarrow> size_m v = 1"
proof -
  note c = invariant_cells[OF inv]
  note e = Erase_Return[OF inv er]
  note i = Emplace_Return[OF e(1) ins]
  have len1: "length (elems v1) = size_m v1" using invariant_cells(2)[OF e(1)] .
  from e(5) c(2) have x: "elems v = take cpos (elems v) @ elems v ! cpos # drop (Suc cpos) (elems v)"
    by (intro id_take_nth_drop) simp
  from i(2) e(2) e(5) c(2) have "elems v2 = take cpos (elems v) @ elems v ! cpos # drop (Suc cpos) (elems v)"
    by simp
  with x show "elems v2 = elems v" by simp
  from i(4) e(4) show "size_m v2 = size_m v" by simp
  from i(1) show "invariant v2" .
  have spare: "size_m v1 \<noteq> capacity_m (data_m v1)"
    using e(4,6) c(3) by simp
  have same: "capacity_m (data_m v2) = capacity_m (data_m v) \<and>
              buffer_m (data_m v2) = buffer_m (data_m v)"
  proof (cases "size_m v1 = 0")
    case True
    with i(5) have z: "cpos = 0" by simp
    from Emplace_empty_Return(5,6)[OF e(1) spare True ins[unfolded z]] e(6,7)
    show ?thesis by simp
  next
    case False
    with i(7) spare have "cpos \<noteq> size_m v1" by auto
    with i(5) have lt: "cpos < size_m v1" by simp
    from Emplace_inplace_Return(5,6)[OF e(1) spare lt ins] e(6,7) show ?thesis by simp
  qed
  then show "capacity_m (data_m v2) = capacity_m (data_m v)"
    and "buffer_m (data_m v2) = buffer_m (data_m v)" by simp_all
  show "size_m v = 1" if "Suc cpos = size_m v"
  proof -
    from that e(4) have "cpos = size_m v1" by simp
    with i(7) spare have "size_m v1 = 0" by auto
    with e(4) show ?thesis by simp
  qed
qed

lemma erase_then_insert_returns:
  assumes q: "faults w = []" and inv: "invariant v" and pos: "cpos < size_m v"
    and notlast: "Suc cpos < size_m v \<or> size_m v = 1"
  shows "\<exists>it1 v1 w1 it2 v2 w2. Erase tr cpos v w = Return it1 (v1, w1) \<and>
           Emplace tr k cpos x v1 w1 = Return it2 (v2, w2)"
proof -
  from Erase_quiet[OF q inv pos, of tr] obtain it1 v1 w1 where
    er: "Erase tr cpos v w = Return it1 (v1, w1)" and q1: "faults w1 = []" by blast
  note c = invariant_cells[OF inv]
  note e = Erase_Return[OF inv er]
  have spare: "size_m v1 \<noteq> capacity_m (data_m v1)" using e(4,6) c(3) by simp
  have "\<exists>it v' w'. Emplace tr k cpos x v1 w1 = Return it (v', w') \<and> faults w' = []"
  proof (cases "size_m v1 = 0")
    case True
    with e(4) pos have "cpos = 0" by simp
    with Emplace_empty_quiet[OF q1 e(1) spare True, of tr k x] show ?thesis by simp
  next
    case False
    with notlast e(4) have "cpos < size_m v1" by auto
    from Emplace_inplace_quiet[OF q1 e(1) spare this] show ?thesis .
  qed
  with er show ?thesis by blast
qed

lemma erase_then_insert_last_undefined:
  assumes q: "faults w = []" and inv: "invariant v"
    and last: "Suc cpos = size_m v" and more: "1 < size_m v"
  shows "\<exists>it1 v1 w1. Erase tr cpos v w = Return it1 (v1, w1) \<and>
           Emplace tr k cpos x v1 w1 = Undefined"
proof -
  from last have pos: "cpos < size_m v" by simp
  from Erase_quiet[OF q inv pos, of tr] obtain it1 v1 w1 where
    er: "Erase tr cpos v w = Return it1 (v1, w1)" and q1: "faults w1 = []" by blast
  note c = invariant_cells[OF inv]
  note e = Erase_Return[OF inv er]
  have spare: "size_m v1 \<noteq> capacity_m (data_m v1)" using e(4,6) c(3) by simp
  have ne: "size_m v1 \<noteq> 0" and at_end: "cpos = size_m v1" using e(4) last more by simp_all
  from Emplace_at_end_inplace_Undefined[OF e(1) spare ne q1, of tr k x] at_end er
  show ?thesis by simp
qed


lemma PopBack_Return:
  assumes inv: "invariant v" and run: "PopBack v w = Return u (v', w')"
  shows "invariant v'" and "elems v' = butlast (elems v)" and "size_m v' = size_m v - 1"
    and "capacity_m (data_m v') = capacity_m (data_m v)"
    and "buffer_m (data_m v') = buffer_m (data_m v)"
    and "trace w' = trace w @ (if size_m v = 0 then [] else [Dtor])"
proof -
  note c = invariant_cells[OF inv]
  have main: "invariant v' \<and> elems v' = butlast (elems v) \<and> size_m v' = size_m v - 1 \<and>
      capacity_m (data_m v') = capacity_m (data_m v) \<and>
      buffer_m (data_m v') = buffer_m (data_m v) \<and>
      trace w' = trace w @ (if size_m v = 0 then [] else [Dtor])"
  proof (cases "size_m v = 0")
    case True
    with run have "v' = v" "w' = w" by (simp_all add: PopBack_def)
    with True inv c(2) show ?thesis by simp
  next
    case False
    let ?xs = "elems v" and ?r = "capacity_m (data_m v) - size_m v"
    from run False obtain cs where
      des: "destroy_at (size_m v - 1) (cells (data_m v)) w = Return () (cs, w')"
      and res: "v' = (set_cells v cs)\<lparr>size_m := size_m v - 1\<rparr>"
      by (fastforce simp: PopBack_def split: outcome.splits prod.splits)
    note d = destroy_at_Return[OF des]
    from False c(2) have ne: "?xs \<noteq> []" by auto
    have "map Obj ?xs = map Obj (butlast ?xs) @ [Obj (last ?xs)]"
      using ne by (metis append_butlast_last_id list.simps(8,9) map_append)
    then have cells: "cells (data_m v) = map Obj (butlast ?xs) @ Obj (last ?xs) # replicate ?r Raw"
      using c(1) by simp
    have len: "length (map Obj (butlast ?xs)) = size_m v - 1" using c(2) by simp
    have "cs = map Obj (butlast ?xs) @ Raw # replicate ?r Raw"
      unfolding d(1) cells using len by (rule update_at_length)
    then have cs: "cs = map Obj (butlast ?xs) @ replicate (Suc ?r) Raw" by simp
    have "invariant v' \<and> elems v' = butlast ?xs"
      using cs res c False by (intro invariantI[where r = "Suc ?r"]) (auto simp: set_cells_def)
    with res d(4) False show ?thesis by (simp add: set_cells_def)
  qed
  then show "invariant v'" and "elems v' = butlast (elems v)" and "size_m v' = size_m v - 1"
    and "capacity_m (data_m v') = capacity_m (data_m v)"
    and "buffer_m (data_m v') = buffer_m (data_m v)"
    and "trace w' = trace w @ (if size_m v = 0 then [] else [Dtor])"
    by simp_all
qed

lemma Resize_shrink_Return:
  assumes inv: "invariant v" and less: "n \<le> size_m v"
    and run: "Resize tr n v w = Return u (v', w')"
  shows "invariant v'" and "elems v' = take n (elems v)" and "size_m v' = n"
    and "capacity_m (data_m v') = capacity_m (data_m v)"
    and "buffer_m (data_m v') = buffer_m (data_m v)"
    and "trace w' = trace w @ replicate (size_m v - n) Dtor"
proof -
  note c = invariant_cells[OF inv]
  let ?xs = "elems v" and ?r = "capacity_m (data_m v) - size_m v"
  have main: "invariant v' \<and> elems v' = take n ?xs \<and> size_m v' = n \<and>
      capacity_m (data_m v') = capacity_m (data_m v) \<and>
      buffer_m (data_m v') = buffer_m (data_m v) \<and>
      trace w' = trace w @ replicate (size_m v - n) Dtor"
  proof (cases "n = size_m v")
    case True
    with run have "v' = v\<lparr>size_m := n\<rparr>" "w' = w" by (simp_all add: Resize_def)
    with True have "v' = v" "w' = w" by simp_all
    with True inv c(2) show ?thesis by simp
  next
    case False
    with less have lt: "n < size_m v" by simp
    from run lt obtain cs where
      des: "destroy_n n (size_m v - n) (cells (data_m v)) w = Return () (cs, w')"
      and res: "v' = (set_cells v cs)\<lparr>size_m := n\<rparr>"
      by (fastforce simp: Resize_def split: outcome.splits prod.splits)
    from destroy_n_Return[OF des] lt
    have cs0: "cs = take n (cells (data_m v)) @ replicate (size_m v - n) Raw
                   @ drop (n + (size_m v - n)) (cells (data_m v))"
      and tr: "trace w' = trace w @ replicate (size_m v - n) Dtor" by simp_all
    have "cs = map Obj (take n ?xs) @ replicate (size_m v - n) Raw @ replicate ?r Raw"
      unfolding cs0 c(1) using lt c(2) by (simp add: take_map)
    then have cs: "cs = map Obj (take n ?xs) @ replicate (size_m v - n + ?r) Raw"
      by (simp add: replicate_add)
    have "invariant v' \<and> elems v' = take n ?xs"
      using cs res c lt by (intro invariantI[where r = "size_m v - n + ?r"])
        (auto simp: set_cells_def)
    with res tr show ?thesis by (simp add: set_cells_def)
  qed
  then show "invariant v'" and "elems v' = take n (elems v)" and "size_m v' = n"
    and "capacity_m (data_m v') = capacity_m (data_m v)"
    and "buffer_m (data_m v') = buffer_m (data_m v)"
    and "trace w' = trace w @ replicate (size_m v - n) Dtor"
    by simp_all
qed

lemma Reserve_Return_weak:
  assumes inv: "invariant v" and run: "Reserve tr n v w = Return u (v', w')"
  shows "invariant v'" and "elems v' = elems v" and "size_m v' = size_m v"
    and "capacity_m (data_m v') = max n (capacity_m (data_m v))"
proof -
  have "invariant v' \<and> elems v' = elems v \<and> size_m v' = size_m v \<and>
        capacity_m (data_m v') = max n (capacity_m (data_m v))"
  proof (cases "capacity_m (data_m v) < n")
    case True
    from Reserve_Return(1-4)[OF inv True run] True show ?thesis by simp
  next
    case False
    with run have "v' = v" by (simp add: Reserve_def Capacity_raw_def)
    with False inv show ?thesis by simp
  qed
  then show "invariant v'" and "elems v' = elems v" and "size_m v' = size_m v"
    and "capacity_m (data_m v') = max n (capacity_m (data_m v))" by simp_all
qed

lemma Resize_grow_Return:
  assumes inv: "invariant v" and more: "size_m v < n"
    and run: "Resize tr n v w = Return u (v', w')"
  shows "invariant v'"
    and "elems v' = elems v @ replicate (n - size_m v) (value_init tr)"
    and "size_m v' = n"
    and "capacity_m (data_m v') = max n (capacity_m (data_m v))"
proof -
  from run more obtain v1 w1 cs where
    rs: "Reserve tr n v w = Return () (v1, w1)"
    and uv: "uninitialized_value_construct_n tr (size_m v1) (n - size_m v1)
                (cells (data_m v1)) w1 = Return () (cs, w')"
    and res: "v' = (set_cells v1 cs)\<lparr>size_m := n\<rparr>"
    by (fastforce simp: Resize_def split: outcome.splits prod.splits)
  note r = Reserve_Return_weak[OF inv rs]
  note c = invariant_cells[OF r(1)]
  let ?xs = "elems v" and ?c = "capacity_m (data_m v1)"
  from r(4) have cap: "n \<le> ?c" by simp
  from uvalue_Return[OF uv] more r(3)
  have cs0: "cs = take (size_m v) (cells (data_m v1)) @ replicate (n - size_m v) (Obj (value_init tr))
               @ drop (size_m v + (n - size_m v)) (cells (data_m v1))" by simp
  have "cs = map Obj ?xs @ replicate (n - size_m v) (Obj (value_init tr)) @ replicate (?c - n) Raw"
    unfolding cs0 c(1) using more c(2) r(2,3) cap by simp
  then have cs: "cs = map Obj (?xs @ replicate (n - size_m v) (value_init tr)) @ replicate (?c - n) Raw"
    by simp
  have "invariant v' \<and> elems v' = ?xs @ replicate (n - size_m v) (value_init tr)"
    using cs res c r(2,3) more cap by (intro invariantI[where r = "?c - n"])
      (auto simp: set_cells_def)
  with res r(4) show "invariant v'"
    and "elems v' = elems v @ replicate (n - size_m v) (value_init tr)"
    and "size_m v' = n"
    and "capacity_m (data_m v') = max n (capacity_m (data_m v))"
    by (simp_all add: set_cells_def)
qed

section \<open>The claims\<close>








text \<open>
  C3.  \<^verbatim>\<open>UninitializedCopyOrMoveN\<close>, when it returns, has constructed the \<open>n\<close> elements in
  the destination with the move constructor if the element type is
  nothrow-move-constructible or not copy-constructible, leaving the sources moved-from,
  and with the copy constructor in every other case, leaving the source slots as they
  were.  The growth paths transfer with exactly these constructor calls: \<^verbatim>\<open>Reserve\<close>
  beyond the capacity, an append to a full array, and \<^verbatim>\<open>Emplace\<close> into a full array
  (prefix, then suffix).
\<close>

theorem transfer_policy:
  "(UninitializedCopyOrMoveN tr src first n dst d_first w = Return () ((src', dst'), w') \<longrightarrow>
      dst' = take d_first dst @ take n (drop first src) @ drop (d_first + n) dst \<and>
      src' = (if nothrow_move_constructible tr \<or> \<not> copy_constructible tr
              then take first src @ map (after_move tr) (take n (drop first src))
                   @ drop (first + n) src
              else src) \<and>
      trace w' = trace w @ replicate n
        (Ctor (if nothrow_move_constructible tr \<or> \<not> copy_constructible tr then Move else Copy))) \<and>
   (invariant v \<and> Capacity v < m \<and> Reserve tr m v w = Return () (v1, w1) \<longrightarrow>
      trace w1 = trace w @ [Alloc] @ replicate (Size v)
        (Ctor (if nothrow_move_constructible tr \<or> \<not> copy_constructible tr then Move else Copy))
        @ replicate (Size v) Dtor @ (if buffer_m (data_m v) = 0 then [] else [Dealloc])) \<and>
   (Size v = Capacity v \<and> append_one tr a v w = Return () (v2, w2) \<longrightarrow>
      trace w2 = trace w @ [Alloc, Ctor (ctor_of a)] @ replicate (Size v)
        (Ctor (if nothrow_move_constructible tr \<or> \<not> copy_constructible tr then Move else Copy))
        @ replicate (Size v) Dtor @ (if buffer_m (data_m v) = 0 then [] else [Dealloc])) \<and>
   (invariant v \<and> Size v = Capacity v \<and> cpos \<le> Size v \<and>
    Emplace tr k cpos x v w = Return it (v3, w3) \<longrightarrow>
      trace w3 = trace w @ [Alloc, Ctor k]
        @ replicate cpos
           (Ctor (if nothrow_move_constructible tr \<or> \<not> copy_constructible tr then Move else Copy))
        @ replicate (Size v - cpos)
           (Ctor (if nothrow_move_constructible tr \<or> \<not> copy_constructible tr then Move else Copy))
        @ replicate (Size v) Dtor @ (if buffer_m (data_m v) = 0 then [] else [Dealloc]))"
proof (intro conjI impI)
  assume "UninitializedCopyOrMoveN tr src first n dst d_first w = Return () ((src', dst'), w')"
  note r = UCM_Return[OF this]
  from r show "dst' = take d_first dst @ take n (drop first src) @ drop (d_first + n) dst"
    by simp
  from r show "src' = (if nothrow_move_constructible tr \<or> \<not> copy_constructible tr
              then take first src @ map (after_move tr) (take n (drop first src))
                   @ drop (first + n) src
              else src)" by simp
  from r show "trace w' = trace w @ replicate n
        (Ctor (if nothrow_move_constructible tr \<or> \<not> copy_constructible tr then Move else Copy))"
    by simp
next
  assume "invariant v \<and> Capacity v < m \<and> Reserve tr m v w = Return () (v1, w1)"
  then have "invariant v" "capacity_m (data_m v) < m" "Reserve tr m v w = Return () (v1, w1)"
    by (simp_all add: Capacity_def Capacity_raw_def)
  from Reserve_Return(6)[OF this]
  show "trace w1 = trace w @ [Alloc] @ replicate (Size v)
        (Ctor (if nothrow_move_constructible tr \<or> \<not> copy_constructible tr then Move else Copy))
        @ replicate (Size v) Dtor @ (if buffer_m (data_m v) = 0 then [] else [Dealloc])"
    by (simp add: Size_def)
next
  assume "Size v = Capacity v \<and> append_one tr a v w = Return () (v2, w2)"
  then have eq: "size_m v = capacity_m (data_m v)"
    and "append_one tr a v w = Return () (v2, w2)"
    by (simp_all add: Size_def Capacity_def Capacity_raw_def)
  then obtain i where "EmplaceBack tr (ctor_of a) (appended a) v w = Return i (v2, w2)"
    unfolding append_one_EmplaceBack by (blast dest: forget_Return)
  from EmplaceBack_realloc_trace[OF eq this]
  show "trace w2 = trace w @ [Alloc, Ctor (ctor_of a)] @ replicate (Size v)
        (Ctor (if nothrow_move_constructible tr \<or> \<not> copy_constructible tr then Move else Copy))
        @ replicate (Size v) Dtor @ (if buffer_m (data_m v) = 0 then [] else [Dealloc])"
    by (simp add: Size_def)
next
  assume "invariant v \<and> Size v = Capacity v \<and> cpos \<le> Size v \<and>
    Emplace tr k cpos x v w = Return it (v3, w3)"
  then have "invariant v" "size_m v = capacity_m (data_m v)" "cpos \<le> size_m v"
    "Emplace tr k cpos x v w = Return it (v3, w3)"
    by (simp_all add: Size_def Capacity_def Capacity_raw_def)
  from Emplace_realloc_Return(6)[OF this]
  show "trace w3 = trace w @ [Alloc, Ctor k]
        @ replicate cpos
           (Ctor (if nothrow_move_constructible tr \<or> \<not> copy_constructible tr then Move else Copy))
        @ replicate (Size v - cpos)
           (Ctor (if nothrow_move_constructible tr \<or> \<not> copy_constructible tr then Move else Copy))
        @ replicate (Size v) Dtor @ (if buffer_m (data_m v) = 0 then [] else [Dealloc])"
    by (simp add: Size_def)
qed

theorem transfer_policy_witness:
  "UninitializedCopyOrMoveN throwing_traits [Obj ''a'', Obj ''b''] 0 2 [Raw, Raw, Raw] 0
       (scheduled [])
     = Return () (([Obj ''a'', Obj ''b''], [Obj ''a'', Obj ''b'', Raw]),
                  settled 1 [Ctor Copy, Ctor Copy]) \<and>
   UninitializedCopyOrMoveN string_traits [Obj ''a'', Obj ''b''] 0 2 [Raw, Raw, Raw] 0
       (scheduled [])
     = Return () (([Obj [], Obj []], [Obj ''a'', Obj ''b'', Raw]),
                  settled 1 [Ctor Move, Ctor Move]) \<and>
   invariant (holding [''a'', ''b''] 2) \<and> Capacity (holding [''a'', ''b''] 2) < 3 \<and>
   Reserve throwing_traits 3 (holding [''a'', ''b''] 2) (scheduled [])
     = Return () (holding_at 2 [''a'', ''b''] 3,
                  settled 2 [Alloc, Ctor Copy, Ctor Copy, Dtor, Dtor, Dealloc]) \<and>
   Size (holding [''a'', ''b''] 2) = Capacity (holding [''a'', ''b''] 2) \<and>
   append_one throwing_traits (PushBackMove ''c'') (holding [''a'', ''b''] 2) (scheduled [])
     = Return () (holding_at 2 [''a'', ''b'', ''c''] 4,
                  settled 2 [Alloc, Ctor Move, Ctor Copy, Ctor Copy, Dtor, Dtor, Dealloc]) \<and>
   (1 :: nat) \<le> Size (holding [''a'', ''b''] 2) \<and>
   Emplace throwing_traits FromArgs 1 ''c'' (holding [''a'', ''b''] 2) (scheduled [])
     = Return (2, 1) (holding_at 2 [''a'', ''c'', ''b''] 4,
                  settled 2 [Alloc, Ctor FromArgs, Ctor Copy, Ctor Copy, Dtor, Dtor, Dealloc]) \<and>
   trace (settled 1 [Ctor Copy, Ctor Copy]) = trace (scheduled []) @ replicate 2
        (Ctor (if nothrow_move_constructible throwing_traits \<or> \<not> copy_constructible throwing_traits
                 then Move else Copy)) \<and>
   trace (settled 2 [Alloc, Ctor Copy, Ctor Copy, Dtor, Dtor, Dealloc])
     = trace (scheduled []) @ [Alloc] @ replicate (Size (holding [''a'', ''b''] 2))
        (Ctor (if nothrow_move_constructible throwing_traits \<or> \<not> copy_constructible throwing_traits
                 then Move else Copy))
        @ replicate (Size (holding [''a'', ''b''] 2)) Dtor
        @ (if buffer_m (data_m (holding [''a'', ''b''] 2)) = 0 then [] else [Dealloc]) \<and>
   trace (settled 2 [Alloc, Ctor Move, Ctor Copy, Ctor Copy, Dtor, Dtor, Dealloc])
     = trace (scheduled []) @ [Alloc, Ctor (ctor_of (PushBackMove ''c''))]
        @ replicate (Size (holding [''a'', ''b''] 2))
        (Ctor (if nothrow_move_constructible throwing_traits \<or> \<not> copy_constructible throwing_traits
                 then Move else Copy))
        @ replicate (Size (holding [''a'', ''b''] 2)) Dtor
        @ (if buffer_m (data_m (holding [''a'', ''b''] 2)) = 0 then [] else [Dealloc]) \<and>
   trace (settled 2 [Alloc, Ctor FromArgs, Ctor Copy, Ctor Copy, Dtor, Dtor, Dealloc])
     = trace (scheduled []) @ [Alloc, Ctor FromArgs]
        @ replicate 1
        (Ctor (if nothrow_move_constructible throwing_traits \<or> \<not> copy_constructible throwing_traits
                 then Move else Copy))
        @ replicate (Size (holding [''a'', ''b''] 2) - 1)
        (Ctor (if nothrow_move_constructible throwing_traits \<or> \<not> copy_constructible throwing_traits
                 then Move else Copy))
        @ replicate (Size (holding [''a'', ''b''] 2)) Dtor
        @ (if buffer_m (data_m (holding [''a'', ''b''] 2)) = 0 then [] else [Dealloc])"
proof -
  let ?v = "holding [''a'', ''b''] 2"
  have r1: "UninitializedCopyOrMoveN throwing_traits [Obj ''a'', Obj ''b''] 0 2 [Raw, Raw, Raw] 0
       (scheduled [])
     = Return () (([Obj ''a'', Obj ''b''], [Obj ''a'', Obj ''b'', Raw]),
                  settled 1 [Ctor Copy, Ctor Copy])" by code_simp
  have r1': "UninitializedCopyOrMoveN string_traits [Obj ''a'', Obj ''b''] 0 2 [Raw, Raw, Raw] 0
       (scheduled [])
     = Return () (([Obj [], Obj []], [Obj ''a'', Obj ''b'', Raw]),
                  settled 1 [Ctor Move, Ctor Move])" by code_simp
  have h2: "invariant ?v" "Capacity ?v < 3" by code_simp+
  have r2: "Reserve throwing_traits 3 ?v (scheduled [])
     = Return () (holding_at 2 [''a'', ''b''] 3,
                  settled 2 [Alloc, Ctor Copy, Ctor Copy, Dtor, Dtor, Dealloc])" by code_simp
  have h3: "Size ?v = Capacity ?v" by code_simp
  have r3: "append_one throwing_traits (PushBackMove ''c'') ?v (scheduled [])
     = Return () (holding_at 2 [''a'', ''b'', ''c''] 4,
                  settled 2 [Alloc, Ctor Move, Ctor Copy, Ctor Copy, Dtor, Dtor, Dealloc])"
    by code_simp
  have h4: "(1 :: nat) \<le> Size ?v" by code_simp
  have r4: "Emplace throwing_traits FromArgs 1 ''c'' ?v (scheduled [])
     = Return (2, 1) (holding_at 2 [''a'', ''c'', ''b''] 4,
                  settled 2 [Alloc, Ctor FromArgs, Ctor Copy, Ctor Copy, Dtor, Dtor, Dealloc])"
    by code_simp
  note t = transfer_policy[where tr = throwing_traits and w = "scheduled []" and v = ?v
      and src = "[Obj ''a'', Obj ''b'']" and first = 0 and n = 2 and dst = "[Raw, Raw, Raw]"
      and d_first = 0 and m = 3 and a = "PushBackMove ''c''" and cpos = 1 and k = FromArgs
      and x = "''c''"]
  from t r1 have c1: "trace (settled 1 [Ctor Copy, Ctor Copy]) = trace (scheduled []) @ replicate 2
        (Ctor (if nothrow_move_constructible throwing_traits \<or> \<not> copy_constructible throwing_traits
                 then Move else Copy))" by blast
  from t r1 r1' h2 r2 h3 r3 h4 r4 c1 show ?thesis by blast
qed



text \<open>
  C5.  Copy assignment \<^verbatim>\<open>this = other\<close> between two distinct arrays.  If the source's
  size exceeds the destination's capacity, a copy of the source is built in a new
  buffer of exactly the source's size and swapped in, and the old elements and buffer
  are released; if building the copy throws, the store is unchanged and nothing leaks.
  Otherwise the buffer is kept: the common prefix is copy-assigned, then a longer
  destination destroys its tail and a longer source has its remaining elements
  copy-constructed.  Whenever the assignment returns, the destination holds the
  source's elements and size; its capacity never shrinks, whether the assignment
  returns or throws; no other object changes; the assignment returns when nothing
  throws.
\<close>

theorem copy_assignment:
  assumes ne: "this \<noteq> other" and it: "invariant (s this)" and io: "invariant (s other)"
  shows
   "(Capacity (s this) < Size (s other) \<longrightarrow>
       (copy_assign tr this other s w = Throw (s', w') \<longrightarrow>
          s' = s \<and> live_objects w' = live_objects w \<and> live_blocks w' = live_blocks w) \<and>
       (copy_assign tr this other s w = Return () (s', w') \<longrightarrow>
          buffer_m (data_m (s' this)) = Suc (next_addr w) \<and>
          Capacity (s' this) = Size (s other) \<and>
          trace w' = trace w @ [Alloc] @ replicate (Size (s other)) (Ctor Copy)
            @ replicate (Size (s this)) Dtor
            @ (if buffer_m (data_m (s this)) = 0 then [] else [Dealloc]))) \<and>
    (Size (s other) \<le> Capacity (s this) \<longrightarrow>
       (copy_assign tr this other s w = Return () (s', w') \<longrightarrow>
          buffer_m (data_m (s' this)) = buffer_m (data_m (s this)) \<and>
          Capacity (s' this) = Capacity (s this) \<and>
          trace w' = trace w @ replicate (min (Size (s this)) (Size (s other))) CopyAssign
            @ (if Size (s other) \<le> Size (s this)
               then replicate (Size (s this) - Size (s other)) Dtor
               else replicate (Size (s other) - Size (s this)) (Ctor Copy)))) \<and>
    (copy_assign tr this other s w = Return () (s', w') \<longrightarrow>
       invariant (s' this) \<and> Size (s' this) = Size (s other) \<and>
       elems (s' this) = elems (s other) \<and> Capacity (s this) \<le> Capacity (s' this) \<and>
       (\<forall>obj. obj \<noteq> this \<longrightarrow> s' obj = s obj)) \<and>
    (copy_assign tr this other s w = Throw (s', w') \<longrightarrow>
       Size (s' this) = Size (s this) \<and> Capacity (s' this) = Capacity (s this) \<and>
       (\<forall>obj. obj \<noteq> this \<longrightarrow> s' obj = s obj)) \<and>
    (faults w = [] \<longrightarrow> (\<exists>s' w'. copy_assign tr this other s w = Return () (s', w')))"
proof -
  note defs = Size_def Capacity_def Capacity_raw_def
  have a1: "s' = s \<and> live_objects w' = live_objects w \<and> live_blocks w' = live_blocks w"
    if "Capacity (s this) < Size (s other)" "copy_assign tr this other s w = Throw (s', w')"
  proof -
    from that(1) have small: "capacity_m (data_m (s this)) < size_m (s other)"
      by (simp add: defs)
    from copy_assign_rebuild_Throw[where s = s and this = this and other = other,
        OF ne small that(2)] show ?thesis by simp
  qed
  have a2: "buffer_m (data_m (s' this)) = Suc (next_addr w) \<and>
          Capacity (s' this) = Size (s other) \<and>
          trace w' = trace w @ [Alloc] @ replicate (Size (s other)) (Ctor Copy)
            @ replicate (Size (s this)) Dtor
            @ (if buffer_m (data_m (s this)) = 0 then [] else [Dealloc])"
    if "Capacity (s this) < Size (s other)" "copy_assign tr this other s w = Return () (s', w')"
  proof -
    from that(1) have small: "capacity_m (data_m (s this)) < size_m (s other)"
      by (simp add: defs)
    note r = copy_assign_rebuild_Return[where s = s and this = this and other = other,
        OF ne io small that(2)]
    from r(5,6,7) show ?thesis by (simp add: defs)
  qed
  have b: "buffer_m (data_m (s' this)) = buffer_m (data_m (s this)) \<and>
          Capacity (s' this) = Capacity (s this) \<and>
          trace w' = trace w @ replicate (min (Size (s this)) (Size (s other))) CopyAssign
            @ (if Size (s other) \<le> Size (s this)
               then replicate (Size (s this) - Size (s other)) Dtor
               else replicate (Size (s other) - Size (s this)) (Ctor Copy))"
    if "Size (s other) \<le> Capacity (s this)" "copy_assign tr this other s w = Return () (s', w')"
  proof -
    from that(1) have fits: "size_m (s other) \<le> capacity_m (data_m (s this))"
      by (simp add: defs)
    note r = copy_assign_reuse_Return[where s = s and this = this and other = other,
        OF ne it io fits that(2)]
    from r(5,6,7) show ?thesis by (simp add: defs)
  qed
  have c: "copy_assign tr this other s w = Return () (s', w') \<Longrightarrow>
       invariant (s' this) \<and> Size (s' this) = Size (s other) \<and>
       elems (s' this) = elems (s other) \<and> Capacity (s this) \<le> Capacity (s' this) \<and>
       (\<forall>obj. obj \<noteq> this \<longrightarrow> s' obj = s obj)"
  proof (cases "capacity_m (data_m (s this)) < size_m (s other)")
    case True
    assume "copy_assign tr this other s w = Return () (s', w')"
    note r = copy_assign_rebuild_Return[where s = s and this = this and other = other,
        OF ne io True this]
    from r(1,2,3,4,5) True show ?thesis
      by (simp add: defs)
  next
    case False
    then have fits: "size_m (s other) \<le> capacity_m (data_m (s this))" by simp
    assume "copy_assign tr this other s w = Return () (s', w')"
    note r = copy_assign_reuse_Return[where s = s and this = this and other = other,
        OF ne it io fits this]
    from r(1,2,3,4,5) show ?thesis
      by (simp add: defs)
  qed
  have d: "copy_assign tr this other s w = Throw (s', w') \<Longrightarrow>
       Size (s' this) = Size (s this) \<and> Capacity (s' this) = Capacity (s this) \<and>
       (\<forall>obj. obj \<noteq> this \<longrightarrow> s' obj = s obj)"
  proof (cases "capacity_m (data_m (s this)) < size_m (s other)")
    case True
    assume "copy_assign tr this other s w = Throw (s', w')"
    from copy_assign_rebuild_Throw(1)[where s = s and this = this and other = other,
        OF ne True this] show ?thesis by simp
  next
    case False
    then have fits: "size_m (s other) \<le> capacity_m (data_m (s this))" by simp
    assume "copy_assign tr this other s w = Throw (s', w')"
    from copy_assign_reuse_Throw[where s = s and this = this and other = other,
        OF ne fits this] show ?thesis by (simp add: defs)
  qed
  have e: "faults w = [] \<Longrightarrow> \<exists>s' w'. copy_assign tr this other s w = Return () (s', w')"
    using copy_assign_quiet[where s = s and this = this and other = other, OF _ ne it io]
    by blast
  from a1 a2 b c d e show ?thesis by blast
qed

theorem copy_assignment_witness:
  "(0 :: nat) \<noteq> 1 \<and> invariant (short_long 0) \<and> invariant (short_long 1) \<and>
   invariant (long_short 0) \<and> invariant (long_short 1) \<and>
   faults (scheduled_from 2 []) = [] \<and>
   Capacity (short_long 0) < Size (short_long 1) \<and>
   copy_assign int_traits 0 1 short_long (scheduled_from 2 [])
     = Return () (short_long(0 := holding_at 3 [3, 4, 5, 6, 7] 5),
                  settled 3 [Alloc, Ctor Copy, Ctor Copy, Ctor Copy, Ctor Copy, Ctor Copy,
                             Dtor, Dtor, Dealloc]) \<and>
   copy_assign int_traits 0 1 short_long (scheduled_from 2 [False, False, False, True])
     = Throw (short_long, settled 3 [Alloc, Ctor Copy, Ctor Copy, Dtor, Dtor, Dealloc]) \<and>
   Size (long_short 1) \<le> Capacity (long_short 0) \<and>
   copy_assign int_traits 0 1 long_short (scheduled_from 2 [])
     = Return () (long_short(0 := holding_at 1 [1, 2] 5),
                  settled 2 [CopyAssign, CopyAssign, Dtor, Dtor, Dtor]) \<and>
   Size ((short_long(0 := holding_at 3 [3, 4, 5, 6, 7] 5)) 0) = Size (short_long 1) \<and>
   Size ((long_short(0 := holding_at 1 [1, 2] 5)) 0) = Size (long_short 1) \<and>
   Capacity ((long_short(0 := holding_at 1 [1, 2] 5)) 0) = Capacity (long_short 0)"
proof -
  let ?A = "holding_at 1 [1, 2 :: int] 2" and ?B = "holding_at 2 [3, 4, 5, 6, 7 :: int] 5"
  let ?C = "holding_at 1 [3, 4, 5, 6, 7 :: int] 5" and ?D = "holding_at 2 [1, 2 :: int] 2"
  have ne: "(0 :: nat) \<noteq> 1" by simp
  have sl: "short_long 0 = ?A" "short_long 1 = ?B" by (simp_all add: short_long_def)
  have ls: "long_short 0 = ?C" "long_short 1 = ?D" by (simp_all add: long_short_def)
  have inv: "invariant ?A" "invariant ?B" "invariant ?C" "invariant ?D" by code_simp+
  have q: "faults (scheduled_from 2 []) = []" by code_simp
  have small: "capacity_m (data_m (short_long 0)) < size_m (short_long 1)"
    unfolding sl by code_simp
  have small': "Capacity (short_long 0) < Size (short_long 1)"
    unfolding sl by code_simp
  have fits: "size_m (long_short 1) \<le> capacity_m (data_m (long_short 0))"
    unfolding ls by code_simp
  have fits': "Size (long_short 1) \<le> Capacity (long_short 0)"
    unfolding ls by code_simp
  have cp: "Vector_copy ?B (scheduled_from 2 [])
      = Return (holding_at 3 [3, 4, 5, 6, 7] 5)
          (settled 3 [Alloc, Ctor Copy, Ctor Copy, Ctor Copy, Ctor Copy, Ctor Copy])"
    by code_simp
  have ds: "Vector_destroy ?A
        (settled 3 [Alloc, Ctor Copy, Ctor Copy, Ctor Copy, Ctor Copy, Ctor Copy])
      = Return () (settled 3 [Alloc, Ctor Copy, Ctor Copy, Ctor Copy, Ctor Copy, Ctor Copy,
                             Dtor, Dtor, Dealloc])"
    by code_simp
  have r1: "copy_assign int_traits 0 1 short_long (scheduled_from 2 [])
     = Return () (short_long(0 := holding_at 3 [3, 4, 5, 6, 7] 5),
                  settled 3 [Alloc, Ctor Copy, Ctor Copy, Ctor Copy, Ctor Copy, Ctor Copy,
                             Dtor, Dtor, Dealloc])"
    unfolding copy_assign_rebuild[OF ne small] sl by (simp only: cp ds outcome.case)
  have cpt: "Vector_copy ?B (scheduled_from 2 [False, False, False, True])
      = Throw (settled 3 [Alloc, Ctor Copy, Ctor Copy, Dtor, Dtor, Dealloc])"
    by code_simp
  have r2: "copy_assign int_traits 0 1 short_long (scheduled_from 2 [False, False, False, True])
     = Throw (short_long, settled 3 [Alloc, Ctor Copy, Ctor Copy, Dtor, Dtor, Dealloc])"
    unfolding copy_assign_rebuild[OF ne small] sl by (simp only: cpt outcome.case)
  have lp: "copy_assign_loop (cells (data_m ?D)) 0 (min (size_m ?C) (size_m ?D))
              (cells (data_m ?C)) (scheduled_from 2 [])
      = Return () ([Obj 1, Obj 2, Obj 5, Obj 6, Obj 7], settled 2 [CopyAssign, CopyAssign])"
    by code_simp
  have dn: "(if size_m ?D \<le> size_m ?C
             then destroy_n (size_m ?D) (size_m ?C - size_m ?D)
                    [Obj 1, Obj 2, Obj 5, Obj 6, Obj 7] (settled 2 [CopyAssign, CopyAssign])
             else uninitialized_copy_n (cells (data_m ?D)) (size_m ?C)
                        (size_m ?D - size_m ?C) [Obj 1, Obj 2, Obj 5, Obj 6, Obj 7]
                        (size_m ?C) (settled 2 [CopyAssign, CopyAssign]))
      = Return () ([Obj 1, Obj 2, Raw, Raw, Raw], settled 2 [CopyAssign, CopyAssign, Dtor, Dtor, Dtor])"
    by code_simp
  have fin: "(set_cells ?C [Obj 1, Obj 2, Raw, Raw, Raw])\<lparr>size_m := size_m ?D\<rparr>
      = holding_at 1 [1, 2] 5"
    by code_simp
  have r3: "copy_assign int_traits 0 1 long_short (scheduled_from 2 [])
     = Return () (long_short(0 := holding_at 1 [1, 2] 5),
                  settled 2 [CopyAssign, CopyAssign, Dtor, Dtor, Dtor])"
    unfolding copy_assign_reuse[OF ne fits] ls by (simp only: lp dn fin outcome.case prod.case)
  note t1 = copy_assignment[where this = 0 and other = 1 and s = short_long
      and w = "scheduled_from 2 []" and tr = int_traits, OF ne]
  note t2 = copy_assignment[where this = 0 and other = 1 and s = short_long
      and w = "scheduled_from 2 [False, False, False, True]" and tr = int_traits, OF ne]
  note t3 = copy_assignment[where this = 0 and other = 1 and s = long_short
      and w = "scheduled_from 2 []" and tr = int_traits, OF ne]
  have i1: "invariant (short_long 0)" "invariant (short_long 1)"
    "invariant (long_short 0)" "invariant (long_short 1)"
    unfolding sl ls by (rule inv)+
  from t1[OF i1(1,2)] r1
  have c1: "Size ((short_long(0 := holding_at 3 [3, 4, 5, 6, 7] 5)) 0) = Size (short_long 1)"
    by blast
  from t2[OF i1(1,2)] r2 small'
  have c2: "live_objects (settled 3 [Alloc, Ctor Copy, Ctor Copy, Dtor, Dtor, Dealloc])
      = live_objects (scheduled_from 2 [False, False, False, True])" by blast
  from t3[OF i1(3,4)] r3 fits'
  have c3: "Size ((long_short(0 := holding_at 1 [1, 2] 5)) 0) = Size (long_short 1)"
    "Capacity ((long_short(0 := holding_at 1 [1, 2] 5)) 0) = Capacity (long_short 0)"
    by blast+
  from ne i1 q small' r1 r2 fits' r3 c1 c2 c3 show ?thesis by blast
qed

text \<open>
  C2.  Move assignment \<^verbatim>\<open>this = std::move(other)\<close> between two distinct arrays is
  \<^verbatim>\<open>Swap\<close>: the destination takes over the source's buffer, size and elements, the
  source takes over the destination's, and no other object changes.  The source is
  empty afterwards exactly when the destination was empty before.
\<close>

theorem move_assign_exchanges:
  "this \<noteq> other \<Longrightarrow>
     move_assign this other s this = s other \<and>
     move_assign this other s other = s this \<and>
     (\<forall>obj. obj \<noteq> this \<and> obj \<noteq> other \<longrightarrow> move_assign this other s obj = s obj) \<and>
     (Size (move_assign this other s other) = 0 \<longleftrightarrow> Size (s this) = 0)"
  by (simp add: move_assign_def)

theorem move_assign_exchanges_witness:
  "(0 :: nat) \<noteq> 1 \<and>
   move_assign 0 1 long_short 0 = long_short 1 \<and>
   move_assign 0 1 long_short 1 = long_short 0"
  using move_assign_exchanges[of 0 1 long_short] by simp

text \<open>
  The source is not emptied in general: assigned to an array of five elements, the
  source of two elements holds those five afterwards.
\<close>

theorem move_assign_counterexample:
  "(0 :: nat) \<noteq> 1 \<and>
   elems (long_short 0) = [3, 4, 5, 6, 7] \<and> elems (long_short 1) = [1, 2] \<and>
   elems (move_assign 0 1 long_short 0) = [1, 2] \<and>
   Size (move_assign 0 1 long_short 1) = 5 \<and>
   elems (move_assign 0 1 long_short 1) = [3, 4, 5, 6, 7]"
  by code_simp

text \<open>
  C7.  Erase at a position and insertion of the erased value at the same position,
  at the last position of \<open>[''a'', ''b'']\<close> in a buffer of two slots.  \<^verbatim>\<open>Erase\<close> leaves
  \<open>[''a'']\<close> with a spare slot, so \<^verbatim>\<open>Insert\<close> at offset 1, which is now \<^verbatim>\<open>end()\<close>, takes
  the in-place path: it move-constructs the last element into the spare slot, leaving
  the first slot moved-from, and then calls \<^verbatim>\<open>std::move_backward(pos, end() - 1, end())\<close>
  with \<^verbatim>\<open>pos = end()\<close>, which is not a valid range.  The steps around that call are
  shown as well: were the call to do nothing, the assignment to \<^verbatim>\<open>*pos\<close> would leave
  the empty string and \<open>''b''\<close>.
\<close>

theorem erase_then_insert_at_last:
  "Erase string_traits 1 (holding [''a'', ''b''] 2) (scheduled [])
     = Return (1, 1) (holding [''a''] 2, settled 1 [Dtor]) \<and>
   Insert string_traits 1 ''b'' (holding [''a''] 2) (settled 1 [Dtor]) = Undefined \<and>
   move_construct_at string_traits 0 1 [Obj ''a'', Raw] (settled 1 [Dtor, Ctor Copy])
     = Return () ([Obj [], Obj ''a''], settled 1 [Dtor, Ctor Copy, Ctor Move]) \<and>
   std_move_backward string_traits 1 0 1 [Obj [], Obj ''a'']
       (settled 1 [Dtor, Ctor Copy, Ctor Move]) = Undefined \<and>
   assign_at MoveAssign 1 ''b'' [Obj [], Obj ''a''] (settled 1 [Dtor, Ctor Copy, Ctor Move])
     = Return () ([Obj [], Obj ''b''], settled 1 [Dtor, Ctor Copy, Ctor Move, MoveAssign])"
  by code_simp

text \<open>
  C8.  Preservation of the structural invariant by every public operation, at
  \<^verbatim>\<open>Emplace(end(), 5)\<close> on the array \<open>[1]\<close> with two slots: the array satisfies the
  invariant and the position is valid, and the call is undefined (the invalid range
  passed to \<^verbatim>\<open>std::move_backward\<close>).
\<close>

theorem emplace_at_end_in_place:
  "invariant (holding [1 :: int] 2) \<and> (1 :: nat) \<le> Size (holding [1 :: int] 2) \<and>
   Emplace int_traits FromArgs 1 5 (holding [1] 2) (scheduled []) = Undefined"
  by code_simp


end
